theory Spec2Isabelle
  imports Complex_Main "HOL-Library.Product_Lexorder"
begin

section \<open>Calendar values\<close>

text \<open>
  The handlers of \<^verbatim>\<open>app.py\<close> exchange Python \<^verbatim>\<open>datetime.date\<close> and
  \<^verbatim>\<open>datetime.datetime\<close> values with the database. A date is the triple
  (year, month, day); a datetime is a date with (hour, minute, second, microsecond).
  The lexicographic order on these tuples is the chronological order, which is the order
  the SQL comparisons and \<^verbatim>\<open>ORDER BY\<close> use.
\<close>

type_synonym date = "int \<times> int \<times> int"
type_synonym time_of_day = "int \<times> int \<times> int \<times> int"
type_synonym datetime = "date \<times> time_of_day"

definition is_leap :: "int \<Rightarrow> bool" where
  "is_leap y \<longleftrightarrow> y mod 4 = 0 \<and> (y mod 100 \<noteq> 0 \<or> y mod 400 = 0)"

definition DAYS_IN_MONTH :: "int list" where
  "DAYS_IN_MONTH = [-1, 31, 28, 31, 30, 31, 30, 31, 31, 30, 31, 30, 31]"

definition DAYS_BEFORE_MONTH :: "int list" where
  "DAYS_BEFORE_MONTH = [-1, 0, 31, 59, 90, 120, 151, 181, 212, 243, 273, 304, 334]"

definition days_in_month :: "int \<Rightarrow> int \<Rightarrow> int" where
  "days_in_month y m = (if m = 2 \<and> is_leap y then 29 else DAYS_IN_MONTH ! nat m)"

definition days_before_year :: "int \<Rightarrow> int" where
  "days_before_year year = (let y = year - 1 in y * 365 + y div 4 - y div 100 + y div 400)"

definition days_before_month :: "int \<Rightarrow> int \<Rightarrow> int" where
  "days_before_month y m = DAYS_BEFORE_MONTH ! nat m + (if m > 2 \<and> is_leap y then 1 else 0)"

definition ymd2ord :: "date \<Rightarrow> int" where
  "ymd2ord dt = (case dt of (y, m, d) \<Rightarrow> days_before_year y + days_before_month y m + d)"

definition ord2ymd :: "int \<Rightarrow> date" where
  "ord2ymd n0 =
     (let n = n0 - 1;
          n400 = n div 146097; n = n mod 146097;
          year = n400 * 400 + 1;
          n100 = n div 36524; n = n mod 36524;
          n4 = n div 1461; n = n mod 1461;
          n1 = n div 365; n = n mod 365;
          year = year + n100 * 100 + n4 * 4 + n1
      in if n1 = 4 \<or> n100 = 4 then (year - 1, 12, 31)
         else
           let leapyear = (n1 = 3 \<and> (n4 \<noteq> 24 \<or> n100 = 3));
               month = (n + 50) div 32;
               preceding = DAYS_BEFORE_MONTH ! nat month + (if month > 2 \<and> leapyear then 1 else 0)
           in if preceding > n
              then let month = month - 1;
                       preceding = preceding
                         - (DAYS_IN_MONTH ! nat month + (if month = 2 \<and> leapyear then 1 else 0))
                   in (year, month, n - preceding + 1)
              else (year, month, n - preceding + 1))"

definition valid_date :: "date \<Rightarrow> bool" where
  "valid_date dt = (case dt of (y, m, d) \<Rightarrow>
     1 \<le> y \<and> y \<le> 9999 \<and> 1 \<le> m \<and> m \<le> 12 \<and> 1 \<le> d \<and> d \<le> days_in_month y m)"

definition valid_time :: "time_of_day \<Rightarrow> bool" where
  "valid_time t = (case t of (h, mi, s, us) \<Rightarrow>
     0 \<le> h \<and> h < 24 \<and> 0 \<le> mi \<and> mi < 60 \<and> 0 \<le> s \<and> s < 60 \<and> 0 \<le> us \<and> us < 1000000)"

datatype error = ValueError | OverflowError | TypeError | AttributeError
  | OperationalError | DataError

text \<open>
  \<^verbatim>\<open>end_date - timedelta(days=days)\<close>: the constructor of \<^verbatim>\<open>timedelta\<close> refuses a
  magnitude above 999999999 days, and the subtraction refuses a result outside the
  ordinals 1 .. 3652059 (years 1 .. 9999); both raise \<^verbatim>\<open>OverflowError\<close>. The time of
  day is unchanged, the delta being a whole number of days.
\<close>

definition minus_days :: "datetime \<Rightarrow> int \<Rightarrow> datetime option" where
  "minus_days dt days =
     (if \<bar>days\<bar> > 999999999 then None
      else let ordinal = ymd2ord (fst dt) - days
           in if 0 < ordinal \<and> ordinal \<le> 3652059 then Some (ord2ymd ordinal, snd dt) else None)"

subsection \<open>Text forms\<close>

definition digit_char :: "int \<Rightarrow> char" where
  "digit_char n = ''0123456789'' ! nat n"

definition pad2 :: "int \<Rightarrow> string" where
  "pad2 n = [digit_char (n div 10), digit_char (n mod 10)]"

definition pad4 :: "int \<Rightarrow> string" where
  "pad4 n = [digit_char (n div 1000), digit_char (n div 100 mod 10),
             digit_char (n div 10 mod 10), digit_char (n mod 10)]"

definition pad6 :: "int \<Rightarrow> string" where
  "pad6 n = pad2 (n div 10000) @ pad4 (n mod 10000)"

text \<open>\<^verbatim>\<open>date.isoformat()\<close>: \<^verbatim>\<open>"%04d-%02d-%02d"\<close> of a date of Python's range.\<close>

definition isoformat_date :: "date \<Rightarrow> string" where
  "isoformat_date dt = (case dt of (y, m, d) \<Rightarrow> pad4 y @ ''-'' @ pad2 m @ ''-'' @ pad2 d)"

text \<open>\<^verbatim>\<open>datetime.isoformat()\<close>: the microseconds are printed only when they are not 0.\<close>

definition isoformat :: "datetime \<Rightarrow> string" where
  "isoformat ts = (case ts of (dt, h, mi, s, us) \<Rightarrow>
     isoformat_date dt @ ''T'' @ pad2 h @ '':'' @ pad2 mi @ '':'' @ pad2 s
       @ (if us = 0 then [] else ''.'' @ pad6 us))"

definition digit_val :: "char \<Rightarrow> int option" where
  "digit_val = map_of [(CHR ''0'', 0), (CHR ''1'', 1), (CHR ''2'', 2), (CHR ''3'', 3),
     (CHR ''4'', 4), (CHR ''5'', 5), (CHR ''6'', 6), (CHR ''7'', 7), (CHR ''8'', 8),
     (CHR ''9'', 9)]"

fun digits_value :: "int \<Rightarrow> string \<Rightarrow> int option" where
  "digits_value acc [] = Some acc"
| "digits_value acc (c # cs) =
     (case digit_val c of None \<Rightarrow> None | Some v \<Rightarrow> digits_value (10 * acc + v) cs)"

definition number_of :: "string \<Rightarrow> int option" where
  "number_of s = (if s = [] then None else digits_value 0 s)"

text \<open>
  The database reads the text parameters of \<^verbatim>\<open>get_events\<close> as values of the column they
  are compared with. The model reads the spellings the handler documents,
  \<^verbatim>\<open>YYYY-MM-DD\<close> and, for the end of the range, \<^verbatim>\<open>YYYY-MM-DD HH:MM:SS\<close>; a date without a
  time is midnight of that date. Any other text is answered with a data error, as is a
  date that does not exist.
\<close>

definition date_in :: "string \<Rightarrow> date option" where
  "date_in s =
     (if length s = 10 \<and> s ! 4 = CHR ''-'' \<and> s ! 7 = CHR ''-''
      then (case (number_of (take 4 s), number_of (take 2 (drop 5 s)), number_of (drop 8 s)) of
              (Some y, Some m, Some d) \<Rightarrow> if valid_date (y, m, d) then Some (y, m, d) else None
            | _ \<Rightarrow> None)
      else None)"

definition time_in :: "string \<Rightarrow> time_of_day option" where
  "time_in s =
     (if length s = 8 \<and> s ! 2 = CHR '':'' \<and> s ! 5 = CHR '':''
      then (case (number_of (take 2 s), number_of (take 2 (drop 3 s)), number_of (drop 6 s)) of
              (Some h, Some mi, Some sec) \<Rightarrow>
                if valid_time (h, mi, sec, 0) then Some (h, mi, sec, 0) else None
            | _ \<Rightarrow> None)
      else None)"

definition timestamp_in :: "string \<Rightarrow> datetime option" where
  "timestamp_in s =
     (if length s = 10 then map_option (\<lambda>d. (d, (0, 0, 0, 0))) (date_in s)
      else if length s = 19 \<and> s ! 10 = CHR '' ''
      then (case (date_in (take 10 s), time_in (drop 11 s)) of
              (Some d, Some t) \<Rightarrow> Some (d, t)
            | _ \<Rightarrow> None)
      else None)"

text \<open>
  The \<^verbatim>\<open>LIMIT\<close> parameter arrives as text when the request gives it: the database
  reads a decimal integer of the 64-bit range, with an optional sign.
\<close>

definition int8_in :: "string \<Rightarrow> int option" where
  "int8_in s =
     (let v = (case s of
                 [] \<Rightarrow> None
               | c # r \<Rightarrow> if c = CHR ''-'' then map_option uminus (number_of r)
                          else if c = CHR ''+'' then number_of r
                          else number_of s)
      in case v of
           None \<Rightarrow> None
         | Some n \<Rightarrow> if - 9223372036854775808 \<le> n \<and> n \<le> 9223372036854775807
                     then Some n else None)"

text \<open>
  Python's \<^verbatim>\<open>int(text)\<close>: blanks around the number are dropped, a sign may lead, and
  single underscores may separate digits. A character of a text is a code point below
  256. The blanks \<^verbatim>\<open>int\<close> drops are the space, the characters 9 to 13, and the two
  blanks above 127, the next-line character 0x85 and the no-break space 0xA0; the
  separators 0x1C to 0x1F are not dropped. The only digits below 256 are 0 to 9.
\<close>

definition is_space :: "char \<Rightarrow> bool" where
  "is_space c \<longleftrightarrow> c \<in> set [CHR '' '', CHR 0x09, CHR 0x0A, CHR 0x0B, CHR 0x0C, CHR 0x0D,
     CHR 0x85, CHR 0xA0]"

definition strip :: "string \<Rightarrow> string" where
  "strip s = rev (dropWhile is_space (rev (dropWhile is_space s)))"

fun py_digits :: "int \<Rightarrow> bool \<Rightarrow> string \<Rightarrow> int option" where
  "py_digits acc prev [] = (if prev then Some acc else None)"
| "py_digits acc prev (c # cs) =
     (if c = CHR ''_'' then (if prev \<and> cs \<noteq> [] then py_digits acc False cs else None)
      else (case digit_val c of
              None \<Rightarrow> None
            | Some v \<Rightarrow> py_digits (10 * acc + v) True cs))"

definition py_int :: "string \<Rightarrow> int option" where
  "py_int s =
     (case strip s of
        [] \<Rightarrow> None
      | c # r \<Rightarrow> if c = CHR ''-'' then map_option uminus (py_digits 0 False r)
                 else if c = CHR ''+'' then py_digits 0 False r
                 else py_digits 0 False (c # r))"

section \<open>The event store\<close>

text \<open>
  One row of the table \<^verbatim>\<open>dose_log(id, event_type, dose_number, timestamp)\<close>. The
  handler inserts whatever \<^verbatim>\<open>event_type\<close> it is given, so the column may hold any text
  or NULL. The timestamp is set by the database when the row is inserted and is never
  NULL. A query runs against the rows of the table, or fails when the database cannot be
  reached.
\<close>

record dose_row =
  row_id :: int
  event_type :: "string option"
  dose_number :: "int option"
  timestamp :: datetime

datatype database = Unreachable | Connected "dose_row list"


subsection \<open>The queries of the statistics handler\<close>

text \<open>\<^verbatim>\<open>DATE(timestamp)\<close>: the calendar date of a timestamp.\<close>

definition sql_date :: "datetime \<Rightarrow> date" where
  "sql_date ts = fst ts"

text \<open>\<^verbatim>\<open>WHERE timestamp >= %s AND timestamp <= %s\<close>, both bounds inclusive.\<close>

definition in_window :: "datetime \<Rightarrow> datetime \<Rightarrow> dose_row \<Rightarrow> bool" where
  "in_window start_date end_date r \<longleftrightarrow> start_date \<le> timestamp r \<and> timestamp r \<le> end_date"

definition window_rows :: "dose_row list \<Rightarrow> datetime \<Rightarrow> datetime \<Rightarrow> dose_row list" where
  "window_rows T start_date end_date = filter (in_window start_date end_date) T"

text \<open>
  \<^verbatim>\<open>SUM(CASE WHEN event_type = v THEN 1 ELSE 0 END)\<close> over the rows \<open>rs\<close>. A NULL
  \<^verbatim>\<open>event_type\<close> is not equal to \<open>v\<close> and adds 0. Without \<^verbatim>\<open>GROUP BY\<close> the sum over
  no rows is NULL; inside a group there is at least one row.
\<close>

definition case_sum :: "string \<Rightarrow> dose_row list \<Rightarrow> int" where
  "case_sum v rs = sum_list (map (\<lambda>r. if event_type r = Some v then 1 else 0) rs)"

definition sum_or_null :: "string \<Rightarrow> dose_row list \<Rightarrow> int option" where
  "sum_or_null v rs = (if rs = [] then None else Some (case_sum v rs))"

definition select_counts ::
  "dose_row list \<Rightarrow> datetime \<Rightarrow> datetime \<Rightarrow> int option \<times> int option \<times> int option" where
  "select_counts T start_date end_date =
     (let W = window_rows T start_date end_date
      in (Some (int (length W)), sum_or_null ''TAKEN'' W, sum_or_null ''MISSED'' W))"

text \<open>Python's \<^verbatim>\<open>x or 0\<close> on a fetched number: NULL and 0 both give 0.\<close>

definition or_0 :: "int option \<Rightarrow> int" where
  "or_0 x = (case x of None \<Rightarrow> 0 | Some v \<Rightarrow> if v = 0 then 0 else v)"

text \<open>
  \<^verbatim>\<open>SELECT DATE(timestamp), COUNT(*), SUM(CASE ...) ... GROUP BY DATE(timestamp)
  ORDER BY date DESC\<close>: one row (date, total_doses, taken_doses) for each date that occurs
  among the rows of the window, the latest date first.
\<close>

type_synonym day_data = "date \<times> int \<times> int"

definition select_daily_data :: "dose_row list \<Rightarrow> datetime \<Rightarrow> datetime \<Rightarrow> day_data list" where
  "select_daily_data T start_date end_date =
     (let W = window_rows T start_date end_date
      in map (\<lambda>d. let G = filter (\<lambda>r. sql_date (timestamp r) = d) W
                  in (d, int (length G), case_sum ''TAKEN'' G))
             (rev (sort (remdups (map (\<lambda>r. sql_date (timestamp r)) W)))))"

text \<open>
  \<^verbatim>\<open>SELECT DATE(timestamp), event_type, COUNT(*) ... GROUP BY DATE(timestamp), event_type
  ORDER BY date DESC\<close>: one row for each pair of date and event type that occurs in the
  window (the rows with a NULL event type form one group), the latest date first. The
  order of the event types of one date is left open by the query; here it is the reverse
  of the order of first occurrence.
\<close>

type_synonym daily_event = "date \<times> string option \<times> int"

definition select_daily_events ::
  "dose_row list \<Rightarrow> datetime \<Rightarrow> datetime \<Rightarrow> daily_event list" where
  "select_daily_events T start_date end_date =
     (let W = window_rows T start_date end_date
      in map (\<lambda>(d, t). (d, t, int (length (filter
                (\<lambda>r. sql_date (timestamp r) = d \<and> event_type r = t) W))))
             (rev (sort_key fst (remdups (map (\<lambda>r. (sql_date (timestamp r), event_type r)) W)))))"

section \<open>The statistics handler\<close>

text \<open>
  The streak loop of \<^verbatim>\<open>get_statistics\<close>, with the state
  (\<^verbatim>\<open>temp_streak\<close>, \<^verbatim>\<open>best_streak\<close>):
  \<^verbatim>\<open>
  for day_data in daily_data:
      taken_doses = day_data[2]
      if taken_doses >= 3:
          temp_streak += 1
          if temp_streak > best_streak:
              best_streak = temp_streak
      else:
          temp_streak = 0
  \<close>
\<close>

definition streak_step :: "int \<times> int \<Rightarrow> day_data \<Rightarrow> int \<times> int" where
  "streak_step st day_data =
     (case st of (temp_streak, best_streak) \<Rightarrow>
        let taken_doses = snd (snd day_data)
        in if taken_doses \<ge> 3
           then let temp_streak = temp_streak + 1
                in (temp_streak, if temp_streak > best_streak then temp_streak else best_streak)
           else (0, best_streak))"

fun streak_loop :: "int \<times> int \<Rightarrow> day_data list \<Rightarrow> int \<times> int" where
  "streak_loop st [] = st"
| "streak_loop st (day_data # rest) = streak_loop (streak_step st day_data) rest"

text \<open>
  The loop that fills \<^verbatim>\<open>events_by_day\<close>: a date seen for the first time gets the entry
  \<^verbatim>\<open>{'taken': 0, 'missed': 0}\<close>; a TAKEN row stores its count under \<^verbatim>\<open>taken\<close>, a MISSED
  row under \<^verbatim>\<open>missed\<close>, a row of any other event type stores nothing.
\<close>

record day_counts =
  taken :: int
  missed :: int

definition events_by_day_step ::
  "(string \<rightharpoonup> day_counts) \<Rightarrow> daily_event \<Rightarrow> (string \<rightharpoonup> day_counts)" where
  "events_by_day_step events_by_day row =
     (case row of (d, etype, cnt) \<Rightarrow>
        let date_str = isoformat_date d;
            entry = (case events_by_day date_str of
                       None \<Rightarrow> \<lparr>taken = 0, missed = 0\<rparr>
                     | Some e \<Rightarrow> e)
        in if etype = Some ''TAKEN'' then events_by_day(date_str \<mapsto> entry\<lparr>taken := cnt\<rparr>)
           else if etype = Some ''MISSED''
           then events_by_day(date_str \<mapsto> entry\<lparr>missed := cnt\<rparr>)
           else events_by_day(date_str \<mapsto> entry))"

fun events_by_day_loop ::
  "(string \<rightharpoonup> day_counts) \<Rightarrow> daily_event list \<Rightarrow> (string \<rightharpoonup> day_counts)" where
  "events_by_day_loop events_by_day [] = events_by_day"
| "events_by_day_loop events_by_day (row # rest) =
     events_by_day_loop (events_by_day_step events_by_day row) rest"

subsection \<open>Floating-point arithmetic\<close>

text \<open>
  \<^verbatim>\<open>adherence_percentage\<close> is computed in Python's \<^verbatim>\<open>float\<close>, the binary64 format. A
  value of that format that is not negative is a pair \<open>(m, e)\<close> of a mantissa below
  \<open>2 ^ 53\<close> and an exponent, and stands for the number \<open>m * 2 ^ e\<close>. Every operation
  returns the value of the format nearest to the exact result, and the one with the even
  mantissa when two are equally near. The operands here are counts with
  \<open>0 \<le> taken \<le> total\<close>, so the exact results lie between \<open>1 / total\<close> and 100: no sign,
  no overflow, and no subnormal value for a total below \<open>2 ^ 1022\<close>.
\<close>

type_synonym double = "int \<times> int"

text \<open>\<^verbatim>\<open>int.bit_length()\<close>: the number of binary digits of a positive integer.\<close>

function bit_length :: "int \<Rightarrow> int" where
  "bit_length n = (if n \<le> 0 then 0 else bit_length (n div 2) + 1)"
  by pat_completeness auto
termination
  by (relation "measure nat") auto

declare bit_length.simps [simp del]

text \<open>The integer nearest to \<open>a / b\<close> for \<open>0 < b\<close>, the even one at a tie.\<close>

definition rhe_div :: "int \<Rightarrow> int \<Rightarrow> int" where
  "rhe_div a b =
     (let f = a div b; r = a mod b
      in if 2 * r < b then f else if 2 * r > b then f + 1
         else if even f then f else f + 1)"

text \<open>\<open>scale p q e\<close> is a fraction equal to \<open>p / (q * 2 ^ e)\<close>, for an exponent of either sign.\<close>

definition scale :: "int \<Rightarrow> int \<Rightarrow> int \<Rightarrow> int \<times> int" where
  "scale p q e = (if 0 \<le> e then (p, q * 2 ^ nat e) else (p * 2 ^ nat (- e), q))"

text \<open>
  The value of the format nearest to \<open>p / q\<close>, for \<open>0 \<le> p\<close> and \<open>0 < q\<close>: the exponent
  \<open>e\<close> with \<open>2 ^ 52 \<le> p / (q * 2 ^ e) < 2 ^ 53\<close> is found from the bit lengths, and the
  mantissa is that quotient rounded to the nearest integer.
\<close>

definition nearest_double :: "int \<Rightarrow> int \<Rightarrow> double" where
  "nearest_double p q =
     (if p = 0 then (0, 0)
      else let e0 = bit_length p - bit_length q - 53;
               e = (case scale p q e0 of (n, d) \<Rightarrow> if 2 ^ 53 * d \<le> n then e0 + 1 else e0)
           in case scale p q e of (n, d) \<Rightarrow> (rhe_div n d, e))"

text \<open>The fraction a value stands for.\<close>

definition ratio_of :: "double \<Rightarrow> int \<times> int" where
  "ratio_of x = (case x of (m, e) \<Rightarrow> scale m 1 (- e))"

text \<open>
  \<^verbatim>\<open>taken / total\<close> on two integers is the value nearest to the quotient; \<^verbatim>\<open>x * 100\<close> is
  the value nearest to the product. \<^verbatim>\<open>round(x, 2)\<close> writes \<open>x\<close> with two decimals, rounding
  the exact value of \<open>x\<close> to the nearest hundredth and to the even one at a tie
  (\<open>hundredths\<close>), and reads that decimal back as the value nearest to it.
\<close>

definition true_div :: "int \<Rightarrow> int \<Rightarrow> double" where
  "true_div a b = nearest_double a b"

definition times_100 :: "double \<Rightarrow> double" where
  "times_100 x = (case ratio_of x of (n, d) \<Rightarrow> nearest_double (100 * n) d)"

definition hundredths :: "double \<Rightarrow> int" where
  "hundredths x = (case ratio_of x of (n, d) \<Rightarrow> rhe_div (100 * n) d)"

definition round_2 :: "double \<Rightarrow> double" where
  "round_2 x = nearest_double (hundredths x) 100"

text \<open>
  \<^verbatim>\<open>adherence_percentage\<close> is the integer 0 when there is no event, and otherwise the
  floating-point value \<^verbatim>\<open>round(taken / total * 100, 2)\<close>.
\<close>

datatype py_number = Py_int int | Py_float double

definition adherence :: "int \<Rightarrow> int \<Rightarrow> py_number" where
  "adherence taken' total' =
     (if total' > 0 then Py_float (round_2 (times_100 (true_div taken' total'))) else Py_int 0)"

record statistics =
  total_doses :: int
  doses_taken :: int
  doses_missed :: int
  adherence_percentage :: py_number
  current_streak :: int
  best_streak :: int

record statistics_response =
  period_days :: int
  stats :: statistics
  daily_breakdown :: "string \<rightharpoonup> day_counts"

text \<open>The body of the handler once the window is known: the three queries and the loops.\<close>

definition statistics_body ::
  "dose_row list \<Rightarrow> int \<Rightarrow> datetime \<Rightarrow> datetime \<Rightarrow> statistics_response" where
  "statistics_body T days start_date end_date =
     (let counts = select_counts T start_date end_date;
          total' = or_0 (fst counts);
          taken' = or_0 (fst (snd counts));
          missed' = or_0 (snd (snd counts));
          daily_data = select_daily_data T start_date end_date;
          st = streak_loop (0, 0) daily_data;
          daily_events = select_daily_events T start_date end_date;
          events_by_day = events_by_day_loop Map.empty daily_events
      in \<lparr>period_days = days,
          stats = \<lparr>total_doses = total', doses_taken = taken', doses_missed = missed',
                    adherence_percentage = adherence taken' total',
                    current_streak = fst st, best_streak = snd st\<rparr>,
          daily_breakdown = events_by_day\<rparr>)"

text \<open>
  \<^verbatim>\<open>get_statistics\<close>, given the database, the clock reading of \<^verbatim>\<open>datetime.now()\<close> and the
  query parameters. Every exception is caught by the handler and answered with status
  500 (\<open>Inl\<close>); \<open>Inr\<close> is the body of the answer with status 200.
\<close>

definition days_arg :: "(string \<rightharpoonup> string) \<Rightarrow> int option" where
  "days_arg args = (case args ''days'' of None \<Rightarrow> Some 30 | Some s \<Rightarrow> py_int s)"

definition get_statistics ::
  "database \<Rightarrow> datetime \<Rightarrow> (string \<rightharpoonup> string) \<Rightarrow> error + statistics_response" where
  "get_statistics db now args =
     (case days_arg args of
        None \<Rightarrow> Inl ValueError
      | Some days \<Rightarrow>
          (case db of
             Unreachable \<Rightarrow> Inl OperationalError
           | Connected T \<Rightarrow>
               (let end_date = now
                in case minus_days end_date days of
                     None \<Rightarrow> Inl OverflowError
                   | Some start_date \<Rightarrow> Inr (statistics_body T days start_date end_date))))"


section \<open>The query handler\<close>

text \<open>
  \<^verbatim>\<open>limit = request.args.get('limit', 100)\<close>: the integer 100 when the request gives no
  limit, the text of the parameter otherwise. The database refuses a text that is not an
  integer, and a negative \<^verbatim>\<open>LIMIT\<close>.
\<close>

datatype limit_param = Limit_int int | Limit_text string

definition limit_rows :: "limit_param \<Rightarrow> nat option" where
  "limit_rows l =
     (case (case l of Limit_int n \<Rightarrow> Some n | Limit_text s \<Rightarrow> int8_in s) of
        None \<Rightarrow> None
      | Some n \<Rightarrow> if n < 0 then None else Some (nat n))"

definition bound_in :: "string option \<Rightarrow> datetime option option" where
  "bound_in p = (case p of None \<Rightarrow> Some None | Some s \<Rightarrow> map_option Some (timestamp_in s))"

definition at_or_after :: "datetime option \<Rightarrow> dose_row \<Rightarrow> bool" where
  "at_or_after lo r = (case lo of None \<Rightarrow> True | Some l \<Rightarrow> timestamp r \<ge> l)"

definition at_or_before :: "datetime option \<Rightarrow> dose_row \<Rightarrow> bool" where
  "at_or_before hi r = (case hi of None \<Rightarrow> True | Some h \<Rightarrow> timestamp r \<le> h)"

text \<open>
  The query the handler assembles:
  \<^verbatim>\<open>SELECT id, event_type, dose_number, timestamp FROM dose_log WHERE 1=1\<close>, then
  \<^verbatim>\<open>AND timestamp >= %s\<close> when a lower bound was appended, \<^verbatim>\<open>AND timestamp <= %s\<close> when
  an upper bound was appended, then \<^verbatim>\<open>ORDER BY timestamp DESC LIMIT %s\<close>. The order of
  rows with equal timestamps is left open by the query; here it is the reverse of the
  order in the table.
\<close>

definition select_events ::
  "dose_row list \<Rightarrow> string option \<Rightarrow> string option \<Rightarrow> limit_param \<Rightarrow> error + dose_row list" where
  "select_events T lower upper limit =
     (case bound_in lower of
        None \<Rightarrow> Inl DataError
      | Some lo \<Rightarrow>
          (case bound_in upper of
             None \<Rightarrow> Inl DataError
           | Some hi \<Rightarrow>
               (case limit_rows limit of
                  None \<Rightarrow> Inl DataError
                | Some n \<Rightarrow>
                    Inr (take n (rev (sort_key timestamp
                           (filter (\<lambda>r. at_or_after lo r \<and> at_or_before hi r) T)))))))"

record event_json =
  json_id :: int
  json_event_type :: "string option"
  json_dose_number :: "int option"
  json_timestamp :: "string option"

definition event_of_row :: "dose_row \<Rightarrow> event_json" where
  "event_of_row row = \<lparr>json_id = row_id row, json_event_type = event_type row,
     json_dose_number = dose_number row, json_timestamp = Some (isoformat (timestamp row))\<rparr>"

record events_response =
  count :: int
  events :: "event_json list"

text \<open>
  \<^verbatim>\<open>if start_date:\<close> and \<^verbatim>\<open>if end_date:\<close> hold for a parameter that is present and not
  the empty text.
\<close>

definition given :: "string option \<Rightarrow> bool" where
  "given p = (case p of None \<Rightarrow> False | Some s \<Rightarrow> s \<noteq> [])"

definition limit_arg :: "(string \<rightharpoonup> string) \<Rightarrow> limit_param" where
  "limit_arg args = (case args ''limit'' of None \<Rightarrow> Limit_int 100 | Some s \<Rightarrow> Limit_text s)"

definition get_events :: "database \<Rightarrow> (string \<rightharpoonup> string) \<Rightarrow> error + events_response" where
  "get_events db args =
     (let start_date = args ''start_date'';
          end_date = args ''end_date'';
          limit = limit_arg args
      in case db of
           Unreachable \<Rightarrow> Inl OperationalError
         | Connected T \<Rightarrow>
             (let lower = (if given start_date then start_date else None);
                  upper = (if given end_date
                           then map_option (\<lambda>s. s @ '' 23:59:59'') end_date else None)
              in case select_events T lower upper limit of
                   Inl e \<Rightarrow> Inl e
                 | Inr rows \<Rightarrow>
                     (let events = map event_of_row rows
                      in Inr \<lparr>count = int (length events), events = events\<rparr>)))"

section \<open>The ingestion handler\<close>

text \<open>
  The value of \<^verbatim>\<open>request.get_json()\<close>. \<open>JNull\<close> is Python's \<^verbatim>\<open>None\<close>: a body that is
  absent or is the JSON \<^verbatim>\<open>null\<close>. An object is the list of its items, with distinct
  keys. A number is an integer here; a number with a fraction behaves as an integer does
  in the handler (0.0 is false, any number is not a container).
\<close>

datatype json = JNull | JBool bool | JInt int | JStr string | JArr "json list"
  | JObj "(string \<times> json) list"

fun truthy :: "json \<Rightarrow> bool" where
  "truthy JNull = False"
| "truthy (JBool b) = b"
| "truthy (JInt n) = (n \<noteq> 0)"
| "truthy (JStr s) = (s \<noteq> [])"
| "truthy (JArr xs) = (xs \<noteq> [])"
| "truthy (JObj kvs) = (kvs \<noteq> [])"

fun is_infix :: "string \<Rightarrow> string \<Rightarrow> bool" where
  "is_infix k [] = (k = [])"
| "is_infix k (c # cs) = (take (length k) (c # cs) = k \<or> is_infix k cs)"

text \<open>
  \<^verbatim>\<open>key in data\<close>: a key of a dict, an element of a list, a part of a text; a number, a
  truth value and \<^verbatim>\<open>None\<close> are not containers and raise \<^verbatim>\<open>TypeError\<close>.
\<close>

fun contains :: "json \<Rightarrow> string \<Rightarrow> error + bool" where
  "contains (JObj kvs) k = Inr (k \<in> set (map fst kvs))"
| "contains (JArr xs) k = Inr (JStr k \<in> set xs)"
| "contains (JStr s) k = Inr (is_infix k s)"
| "contains (JInt n) k = Inl TypeError"
| "contains (JBool b) k = Inl TypeError"
| "contains JNull k = Inl TypeError"

text \<open>\<^verbatim>\<open>data.get(key)\<close>: only a dict has the method; a missing key gives \<^verbatim>\<open>None\<close>.\<close>

fun get :: "json \<Rightarrow> string \<Rightarrow> error + json" where
  "get (JObj kvs) k = Inr (case map_of kvs k of None \<Rightarrow> JNull | Some v \<Rightarrow> v)"
| "get other k = Inl AttributeError"

record reply =
  status_code :: nat
  status :: string
  message :: string

text \<open>
  \<^verbatim>\<open>log_dose\<close>, the same in \<^verbatim>\<open>app.py\<close> and \<^verbatim>\<open>med_disp/app.py\<close>. The store and its
  \<^verbatim>\<open>INSERT\<close> are the database's: \<open>insert_row db event_type dose_number\<close> is the store
  with the new row, or the message of the exception the insertion raised. The validation
  and the two \<^verbatim>\<open>get\<close> calls are outside the \<^verbatim>\<open>try\<close>: an exception there is not caught by
  the handler (\<open>Inl\<close>), and the framework answers it with status 500.
\<close>

definition log_dose ::
  "('db \<Rightarrow> json \<Rightarrow> json \<Rightarrow> string + 'db) \<Rightarrow> json \<Rightarrow> 'db \<Rightarrow> (error + reply) \<times> 'db" where
  "log_dose insert_row data db =
     (case (if \<not> truthy data then Inr True
            else (case contains data ''event_type'' of Inl e \<Rightarrow> Inl e | Inr b \<Rightarrow> Inr (\<not> b))) of
        Inl e \<Rightarrow> (Inl e, db)
      | Inr True \<Rightarrow>
          (Inr \<lparr>status_code = 400, status = ''error'', message = ''Invalid data''\<rparr>, db)
      | Inr False \<Rightarrow>
          (case get data ''event_type'' of
             Inl e \<Rightarrow> (Inl e, db)
           | Inr etype \<Rightarrow>
               (case get data ''dose_number'' of
                  Inl e \<Rightarrow> (Inl e, db)
                | Inr dnumber \<Rightarrow>
                    (case insert_row db etype dnumber of
                       Inl msg \<Rightarrow>
                         (Inr \<lparr>status_code = 500, status = ''error'', message = msg\<rparr>, db)
                     | Inr db' \<Rightarrow>
                         (Inr \<lparr>status_code = 201, status = ''success'',
                               message = ''Log received''\<rparr>, db')))))"

definition http_status :: "error + reply \<Rightarrow> nat" where
  "http_status r = (case r of Inl e \<Rightarrow> 500 | Inr rep \<Rightarrow> status_code rep)"


section \<open>Notions of the specification\<close>

text \<open>
  The statistics window holds the rows \<open>W = window_rows T start_date end_date\<close>. The
  dates present in it, the number of events of one type on one date, and the dates in
  descending order, are stated here independently of the queries.
\<close>

definition dates_present :: "dose_row list \<Rightarrow> date set" where
  "dates_present W = (\<lambda>r. sql_date (timestamp r)) ` set W"

definition count_on :: "dose_row list \<Rightarrow> date \<Rightarrow> string \<Rightarrow> int" where
  "count_on W d v =
     int (length (filter (\<lambda>r. sql_date (timestamp r) = d \<and> event_type r = Some v) W))"

definition dates_desc :: "dose_row list \<Rightarrow> date list" where
  "dates_desc W = rev (sorted_list_of_set (dates_present W))"

text \<open>
  The running counter of the specification: it starts at \<open>c\<close>, is incremented on a
  complete date and reset to 0 on any other date; the result lists every value it takes.
\<close>

fun counter_run :: "int \<Rightarrow> bool list \<Rightarrow> int list" where
  "counter_run c [] = [c]"
| "counter_run c (full # rest) = c # counter_run (if full then c + 1 else 0) rest"

section \<open>Scenarios\<close>

text \<open>
  The scenarios of the specification, with D = 2024-03-10 and the request made at 21:00
  of that day without parameters, so that the window starts 30 days earlier.
\<close>

definition event :: "int \<Rightarrow> string \<Rightarrow> datetime \<Rightarrow> dose_row" where
  "event i v ts = \<lparr>row_id = i, event_type = Some v, dose_number = None, timestamp = ts\<rparr>"

definition scenario_now :: datetime where
  "scenario_now = ((2024, 3, 10), (21, 0, 0, 0))"

definition scenario_start :: datetime where
  "scenario_start = ((2024, 2, 9), (21, 0, 0, 0))"

text \<open>Three TAKEN on each of D-3, D-2, D-1 and one TAKEN on D.\<close>

definition streak_scenario :: "dose_row list" where
  "streak_scenario =
     [event 1 ''TAKEN'' ((2024, 3, 7), (8, 0, 0, 0)), event 2 ''TAKEN'' ((2024, 3, 7), (13, 0, 0, 0)),
      event 3 ''TAKEN'' ((2024, 3, 7), (20, 0, 0, 0)),
      event 4 ''TAKEN'' ((2024, 3, 8), (8, 0, 0, 0)), event 5 ''TAKEN'' ((2024, 3, 8), (13, 0, 0, 0)),
      event 6 ''TAKEN'' ((2024, 3, 8), (20, 0, 0, 0)),
      event 7 ''TAKEN'' ((2024, 3, 9), (8, 0, 0, 0)), event 8 ''TAKEN'' ((2024, 3, 9), (13, 0, 0, 0)),
      event 9 ''TAKEN'' ((2024, 3, 9), (20, 0, 0, 0)),
      event 10 ''TAKEN'' ((2024, 3, 10), (8, 0, 0, 0))]"

text \<open>Three TAKEN on D-2 and on D-1, one TAKEN and two MISSED on D.\<close>

definition adherence_scenario :: "dose_row list" where
  "adherence_scenario =
     [event 1 ''TAKEN'' ((2024, 3, 8), (8, 0, 0, 0)), event 2 ''TAKEN'' ((2024, 3, 8), (13, 0, 0, 0)),
      event 3 ''TAKEN'' ((2024, 3, 8), (20, 0, 0, 0)),
      event 4 ''TAKEN'' ((2024, 3, 9), (8, 0, 0, 0)), event 5 ''TAKEN'' ((2024, 3, 9), (13, 0, 0, 0)),
      event 6 ''TAKEN'' ((2024, 3, 9), (20, 0, 0, 0)),
      event 7 ''TAKEN'' ((2024, 3, 10), (8, 0, 0, 0)), event 8 ''MISSED'' ((2024, 3, 10), (13, 0, 0, 0)),
      event 9 ''MISSED'' ((2024, 3, 10), (20, 0, 0, 0))]"

text \<open>Three TAKEN on D-3 and on D-1, no event on D-2.\<close>

definition gap_scenario :: "dose_row list" where
  "gap_scenario =
     [event 1 ''TAKEN'' ((2024, 3, 7), (8, 0, 0, 0)), event 2 ''TAKEN'' ((2024, 3, 7), (13, 0, 0, 0)),
      event 3 ''TAKEN'' ((2024, 3, 7), (20, 0, 0, 0)),
      event 4 ''TAKEN'' ((2024, 3, 9), (8, 0, 0, 0)), event 5 ''TAKEN'' ((2024, 3, 9), (13, 0, 0, 0)),
      event 6 ''TAKEN'' ((2024, 3, 9), (20, 0, 0, 0))]"

text \<open>One TAKEN event and one event of another type on D.\<close>

definition other_scenario :: "dose_row list" where
  "other_scenario =
     [event 1 ''TAKEN'' ((2024, 3, 10), (8, 0, 0, 0)), event 2 ''SKIPPED'' ((2024, 3, 10), (13, 0, 0, 0))]"

text \<open>Query parameters: the events of 2024-03-09, and the two newest events.\<close>

definition range_args :: "string \<rightharpoonup> string" where
  "range_args = [''start_date'' \<mapsto> ''2024-03-09'', ''end_date'' \<mapsto> ''2024-03-09'']"

definition limit_args :: "string \<rightharpoonup> string" where
  "limit_args = [''limit'' \<mapsto> ''2'']"

text \<open>The entry the loop of \<^verbatim>\<open>events_by_day\<close> works on for a key: a fresh entry when the key is new.\<close>

definition entry_of :: "(string \<rightharpoonup> day_counts) \<Rightarrow> string \<Rightarrow> day_counts" where
  "entry_of m k = (case m k of None \<Rightarrow> \<lparr>taken = 0, missed = 0\<rparr> | Some e \<Rightarrow> e)"




text \<open>
  Two TAKEN events on 2024-02-09, the first date of the window of the scenarios: one
  before 21:00, the time of day at which the window starts, and one after it.
\<close>

definition cut_scenario :: "dose_row list" where
  "cut_scenario =
     [event 1 ''TAKEN'' ((2024, 2, 9), (8, 0, 0, 0)), event 2 ''TAKEN'' ((2024, 2, 9), (22, 0, 0, 0))]"

section \<open>The streak loop\<close>

lemma case_sum_filter:
  "case_sum v (filter (\<lambda>r. sql_date (timestamp r) = d) W) = count_on W d v"
  by (induction W) (auto simp: case_sum_def count_on_def)


lemma daily_dates: "rev (sort (remdups (map (\<lambda>r. sql_date (timestamp r)) W))) = dates_desc W"
  by (simp add: dates_desc_def dates_present_def sorted_list_of_set_sort_remdups flip: set_map)

lemma select_daily_data_eq:
  "select_daily_data T s e =
     map (\<lambda>d. (d, int (length (filter (\<lambda>r. sql_date (timestamp r) = d) (window_rows T s e))),
               count_on (window_rows T s e) d ''TAKEN''))
         (dates_desc (window_rows T s e))"
  by (simp add: select_daily_data_def Let_def case_sum_filter daily_dates)

lemma set_dates_desc: "set (dates_desc W) = dates_present W"
  by (simp add: dates_desc_def dates_present_def)

lemma streak_step_eq:
  "streak_step (t, b) x = (if snd (snd x) \<ge> 3 then (t + 1, max b (t + 1)) else (0, b))"
  by (simp add: streak_step_def Let_def max_def)

lemma counter_run_not_Nil: "counter_run c bs \<noteq> []"
  by (cases bs) simp_all

lemma Max_counter_run_Cons:
  "Max (set (counter_run c (x # bs))) = max c (Max (set (counter_run (if x then c + 1 else 0) bs)))"
  by (simp add: counter_run_not_Nil)

lemma head_le_Max_counter_run: "c \<le> Max (set (counter_run c bs))"
  by (cases bs) (simp_all add: counter_run_not_Nil)

lemma streak_loop_best:
  "snd (streak_loop (t, b) xs) = max b (Max (set (counter_run t (map (\<lambda>x. snd (snd x) \<ge> 3) xs))))"
  if "t \<le> b" "0 \<le> b"
  using that
proof (induction xs arbitrary: t b)
  case Nil
  then show ?case by simp
next
  case (Cons x xs)
  let ?bs = "map (\<lambda>x. snd (snd x) \<ge> 3) xs"
  show ?case
  proof (cases "snd (snd x) \<ge> 3")
    case True
    have "snd (streak_loop (t, b) (x # xs)) = snd (streak_loop (t + 1, max b (t + 1)) xs)"
      using True by (simp add: streak_step_eq)
    also have "\<dots> = max (max b (t + 1)) (Max (set (counter_run (t + 1) ?bs)))"
      using Cons.prems by (intro Cons.IH) simp_all
    also have "\<dots> = max b (Max (set (counter_run t (True # ?bs))))"
      using head_le_Max_counter_run[of "t + 1" ?bs] Cons.prems
      by (simp only: Max_counter_run_Cons if_True)
    finally show ?thesis using True by simp
  next
    case False
    have "snd (streak_loop (t, b) (x # xs)) = snd (streak_loop (0, b) xs)"
      using False by (simp add: streak_step_eq)
    also have "\<dots> = max b (Max (set (counter_run 0 ?bs)))"
      using Cons.prems by (intro Cons.IH) simp_all
    also have "\<dots> = max b (Max (set (counter_run t (False # ?bs))))"
      using Cons.prems by (simp only: Max_counter_run_Cons if_False)
    finally show ?thesis using False by simp
  qed
qed

lemma streak_loop_current:
  "fst (streak_loop (t, b) xs) =
     (if \<forall>x\<in>set xs. snd (snd x) \<ge> 3 then t + int (length xs)
      else int (length (takeWhile (\<lambda>x. snd (snd x) \<ge> 3) (rev xs))))"
proof (induction xs arbitrary: t b)
  case Nil
  then show ?case by simp
next
  case (Cons x xs)
  show ?case
    by (simp add: streak_step_eq Cons.IH takeWhile_append)
qed


lemma days_arg_empty: "days_arg Map.empty = Some 30"
  by (simp add: days_arg_def)

lemma minus_days_scenario_now: "minus_days scenario_now 30 = Some scenario_start"
  by (simp add: minus_days_def scenario_now_def scenario_start_def ymd2ord_def ord2ymd_def days_before_year_def
      days_before_month_def DAYS_BEFORE_MONTH_def DAYS_IN_MONTH_def is_leap_def Let_def)

lemma get_statistics_ok:
  "days_arg args = Some days \<Longrightarrow> minus_days now days = Some start_date \<Longrightarrow>
   get_statistics (Connected T) now args = Inr (statistics_body T days start_date now)"
  by (simp add: get_statistics_def)

lemma get_statistics_InrD:
  "get_statistics db now args = Inr resp \<Longrightarrow>
   \<exists>T days start_date. db = Connected T \<and> days_arg args = Some days \<and>
     minus_days now days = Some start_date \<and> resp = statistics_body T days start_date now"
  by (auto simp: get_statistics_def split: option.splits database.splits)

lemma window_streak_scenario: "window_rows streak_scenario scenario_start scenario_now = streak_scenario"
  by (simp add: window_rows_def in_window_def streak_scenario_def event_def scenario_start_def scenario_now_def)

lemma daily_streak_scenario:
  "select_daily_data streak_scenario scenario_start scenario_now =
     [((2024, 3, 10), 1, 1), ((2024, 3, 9), 3, 3), ((2024, 3, 8), 3, 3), ((2024, 3, 7), 3, 3)]"
  unfolding select_daily_data_def window_streak_scenario
  by (simp add: streak_scenario_def event_def sql_date_def case_sum_def Let_def)

lemma window_adherence_scenario:
  "window_rows adherence_scenario scenario_start scenario_now = adherence_scenario"
  by (simp add: window_rows_def in_window_def adherence_scenario_def event_def scenario_start_def scenario_now_def)

lemma daily_adherence_scenario:
  "select_daily_data adherence_scenario scenario_start scenario_now =
     [((2024, 3, 10), 3, 1), ((2024, 3, 9), 3, 3), ((2024, 3, 8), 3, 3)]"
  unfolding select_daily_data_def window_adherence_scenario
  by (simp add: adherence_scenario_def event_def sql_date_def case_sum_def Let_def)

lemma window_gap_scenario: "window_rows gap_scenario scenario_start scenario_now = gap_scenario"
  by (simp add: window_rows_def in_window_def gap_scenario_def event_def scenario_start_def scenario_now_def)

lemma daily_gap_scenario:
  "select_daily_data gap_scenario scenario_start scenario_now = [((2024, 3, 9), 3, 3), ((2024, 3, 7), 3, 3)]"
  unfolding select_daily_data_def window_gap_scenario
  by (simp add: gap_scenario_def event_def sql_date_def case_sum_def Let_def)

lemma streaks_of_body:
  "current_streak (stats (statistics_body T days s e)) = fst (streak_loop (0, 0) (select_daily_data T s e))"
  "best_streak (stats (statistics_body T days s e)) = snd (streak_loop (0, 0) (select_daily_data T s e))"
  by (simp_all add: statistics_body_def Let_def)

lemma complete_flags:
  "map (\<lambda>x. snd (snd x) \<ge> 3) (select_daily_data T s e) =
     map (\<lambda>d. count_on (window_rows T s e) d ''TAKEN'' \<ge> 3) (dates_desc (window_rows T s e))"
  by (simp add: select_daily_data_eq comp_def)

lemma streak_loop_oldest_run:
  "fst (streak_loop (0, b) xs) = int (length (takeWhile (\<lambda>x. snd (snd x) \<ge> 3) (rev xs)))"
proof (cases "\<forall>x\<in>set xs. snd (snd x) \<ge> 3")
  case True
  then have tw: "takeWhile (\<lambda>x. snd (snd x) \<ge> 3) (rev xs) = rev xs"
    by (simp add: takeWhile_eq_all_conv)
  have "fst (streak_loop (0, b) xs) = 0 + int (length xs)"
    using True by (simp add: streak_loop_current)
  also have "\<dots> = int (length (rev xs))" by simp
  finally show ?thesis by (simp only: tw)
next
  case False
  then show ?thesis by (auto simp: streak_loop_current)
qed

lemma current_streak_counts_from_oldest:
  "current_streak (stats (statistics_body T days s e)) =
     int (length (takeWhile (\<lambda>d. count_on (window_rows T s e) d ''TAKEN'' \<ge> 3)
                    (sorted_list_of_set (dates_present (window_rows T s e)))))"
proof -
  let ?W = "window_rows T s e"
  let ?g = "\<lambda>d. (d, int (length (filter (\<lambda>r. sql_date (timestamp r) = d) ?W)), count_on ?W d ''TAKEN'')"
  have "rev (select_daily_data T s e) = map ?g (sorted_list_of_set (dates_present ?W))"
    by (simp add: select_daily_data_eq dates_desc_def rev_map)
  then have "takeWhile (\<lambda>x. snd (snd x) \<ge> 3) (rev (select_daily_data T s e))
      = map ?g (takeWhile (\<lambda>d. count_on ?W d ''TAKEN'' \<ge> 3) (sorted_list_of_set (dates_present ?W)))"
    by (simp add: takeWhile_map comp_def)
  then show ?thesis
    by (simp add: streaks_of_body streak_loop_oldest_run)
qed

lemma current_streak_adherence_scenario:
  "map_sum id (\<lambda>resp. current_streak (stats resp))
     (get_statistics (Connected adherence_scenario) scenario_now Map.empty) = Inr 2"
  by (simp add: get_statistics_ok[OF days_arg_empty minus_days_scenario_now] streaks_of_body
      daily_adherence_scenario streak_step_eq)

text \<open>
  C1. The specification defines \<^verbatim>\<open>current_streak\<close> as the run of complete days counted
  backward from the most recent date of the window, and expects 0 when the most recent
  date is incomplete. The loop scans the dates in descending order and returns the value
  the counter has after the last, that is the oldest, date: with three TAKEN events on
  each of D-3, D-2, D-1 and one TAKEN event on D, the answer carries
  \<^verbatim>\<open>current_streak\<close> = 3, not 0. In general the value is the length of the run of
  complete dates counted forward from the oldest date of the window
  (\<open>current_streak_counts_from_oldest\<close>).
\<close>

theorem current_streak_streak_scenario:
  "map_sum id (\<lambda>resp. current_streak (stats resp))
     (get_statistics (Connected streak_scenario) scenario_now Map.empty) = Inr 3"
  by (simp add: get_statistics_ok[OF days_arg_empty minus_days_scenario_now] statistics_body_def Let_def
      daily_streak_scenario streak_step_eq)


text \<open>
  C2. \<^verbatim>\<open>best_streak\<close> is the greatest value taken by the counter that scans the dates
  present in the window in descending order, is incremented on a date with at least three
  TAKEN events and reset to 0 on any other date present. With three TAKEN on D-2 and on
  D-1 and one TAKEN and two MISSED on D, \<^verbatim>\<open>best_streak\<close> = 2.
\<close>

theorem best_streak_max_counter:
  assumes "days_arg args = Some days" and "minus_days now days = Some start_date"
  shows "(\<exists>resp. get_statistics (Connected T) now args = Inr resp \<and>
            best_streak (stats resp) =
              Max (set (counter_run 0
                (map (\<lambda>d. count_on (window_rows T start_date now) d ''TAKEN'' \<ge> 3)
                     (dates_desc (window_rows T start_date now))))))
         \<and> map_sum id (\<lambda>resp. best_streak (stats resp))
              (get_statistics (Connected adherence_scenario) scenario_now Map.empty) = Inr 2"
proof
  let ?bs = "map (\<lambda>d. count_on (window_rows T start_date now) d ''TAKEN'' \<ge> 3)
                     (dates_desc (window_rows T start_date now))"
  have "0 \<le> Max (set (counter_run 0 ?bs))"
    by (rule head_le_Max_counter_run)
  then have "snd (streak_loop (0, 0) (select_daily_data T start_date now)) = Max (set (counter_run 0 ?bs))"
    by (simp add: streak_loop_best complete_flags)
  then show "\<exists>resp. get_statistics (Connected T) now args = Inr resp \<and>
            best_streak (stats resp) = Max (set (counter_run 0 ?bs))"
    by (simp add: get_statistics_ok[OF assms] streaks_of_body)
  show "map_sum id (\<lambda>resp. best_streak (stats resp))
          (get_statistics (Connected adherence_scenario) scenario_now Map.empty) = Inr 2"
    by (simp add: get_statistics_ok[OF days_arg_empty minus_days_scenario_now] streaks_of_body
        daily_adherence_scenario streak_step_eq)
qed

lemma dates_desc_adherence_scenario:
  "dates_desc adherence_scenario = [(2024, 3, 10), (2024, 3, 9), (2024, 3, 8)]"
  by (simp add: adherence_scenario_def event_def sql_date_def flip: daily_dates)

lemma flags_adherence_scenario:
  "map (\<lambda>d. count_on (window_rows adherence_scenario scenario_start scenario_now) d ''TAKEN'' \<ge> 3)
       (dates_desc (window_rows adherence_scenario scenario_start scenario_now)) = [False, True, True]"
  unfolding window_adherence_scenario dates_desc_adherence_scenario
  by (simp add: count_on_def adherence_scenario_def event_def sql_date_def)

theorem best_streak_max_counter_witness:
  "days_arg Map.empty = Some 30 \<and> minus_days scenario_now 30 = Some scenario_start \<and>
   (\<exists>resp. get_statistics (Connected adherence_scenario) scenario_now Map.empty = Inr resp \<and>
      best_streak (stats resp) = Max (set (counter_run 0 [False, True, True])) \<and>
      best_streak (stats resp) = 2)"
  using best_streak_max_counter[OF days_arg_empty minus_days_scenario_now, of adherence_scenario]
  unfolding flags_adherence_scenario
  by (simp add: days_arg_empty minus_days_scenario_now)

section \<open>Totals and the empty window\<close>

lemma counts_of_body:
  "total_doses (stats (statistics_body T days s e)) = int (length (window_rows T s e))"
  "doses_taken (stats (statistics_body T days s e)) = case_sum ''TAKEN'' (window_rows T s e)"
  "doses_missed (stats (statistics_body T days s e)) = case_sum ''MISSED'' (window_rows T s e)"
  "adherence_percentage (stats (statistics_body T days s e)) =
     adherence (case_sum ''TAKEN'' (window_rows T s e)) (int (length (window_rows T s e)))"
  by (simp_all add: statistics_body_def select_counts_def sum_or_null_def or_0_def Let_def case_sum_def)

lemma select_daily_data_Nil: "window_rows T s e = [] \<Longrightarrow> select_daily_data T s e = []"
  by (simp add: select_daily_data_def)

text \<open>
  C8. When the window holds no event, so that \<^verbatim>\<open>total_doses\<close> is 0, the answer carries
  \<^verbatim>\<open>adherence_percentage\<close> = 0 (the integer of the \<^verbatim>\<open>else\<close> branch),
  \<^verbatim>\<open>current_streak\<close> = 0 and \<^verbatim>\<open>best_streak\<close> = 0.
\<close>

theorem empty_window_zero:
  assumes "get_statistics db now args = Inr resp" and "total_doses (stats resp) = 0"
  shows "adherence_percentage (stats resp) = Py_int 0 \<and> current_streak (stats resp) = 0
         \<and> best_streak (stats resp) = 0"
proof -
  from assms(1) obtain T days start_date where
    resp: "resp = statistics_body T days start_date now"
    by (blast dest: get_statistics_InrD)
  from assms(2) have W: "window_rows T start_date now = []"
    by (simp add: resp counts_of_body)
  show ?thesis
    by (simp add: resp counts_of_body streaks_of_body W select_daily_data_Nil adherence_def)
qed

theorem empty_window_zero_witness:
  "get_statistics (Connected []) scenario_now Map.empty
     = Inr (statistics_body [] 30 scenario_start scenario_now)
   \<and> total_doses (stats (statistics_body [] 30 scenario_start scenario_now)) = 0
   \<and> adherence_percentage (stats (statistics_body [] 30 scenario_start scenario_now)) = Py_int 0
   \<and> current_streak (stats (statistics_body [] 30 scenario_start scenario_now)) = 0
   \<and> best_streak (stats (statistics_body [] 30 scenario_start scenario_now)) = 0"
proof -
  have ok: "get_statistics (Connected []) scenario_now Map.empty
     = Inr (statistics_body [] 30 scenario_start scenario_now)"
    by (rule get_statistics_ok[OF days_arg_empty minus_days_scenario_now])
  have z: "total_doses (stats (statistics_body [] 30 scenario_start scenario_now)) = 0"
    by (simp add: counts_of_body window_rows_def)
  from empty_window_zero[OF ok z] ok z show ?thesis by simp
qed

lemma partition_counts:
  "int (length W) = case_sum ''TAKEN'' W + case_sum ''MISSED'' W
     + int (length (filter (\<lambda>r. event_type r \<noteq> Some ''TAKEN'' \<and> event_type r \<noteq> Some ''MISSED'') W))"
  by (induction W) (auto simp: case_sum_def)

text \<open>
  C10. \<^verbatim>\<open>doses_taken + doses_missed \<le> total_doses\<close>, and the difference is the number of
  events of the window whose type is neither TAKEN nor MISSED (a NULL type included):
  such an event is counted in \<^verbatim>\<open>total_doses\<close> only, which makes the inequality strict.
\<close>

theorem taken_missed_le_total:
  assumes "days_arg args = Some days" and "minus_days now days = Some start_date"
  shows "\<exists>resp. get_statistics (Connected T) now args = Inr resp
           \<and> doses_taken (stats resp) + doses_missed (stats resp) \<le> total_doses (stats resp)
           \<and> total_doses (stats resp) - (doses_taken (stats resp) + doses_missed (stats resp))
               = int (length (filter (\<lambda>r. event_type r \<noteq> Some ''TAKEN'' \<and> event_type r \<noteq> Some ''MISSED'')
                   (window_rows T start_date now)))"
  using partition_counts[of "window_rows T start_date now"]
  by (simp add: get_statistics_ok[OF assms] counts_of_body)

lemma window_other_scenario: "window_rows other_scenario scenario_start scenario_now = other_scenario"
  by (simp add: window_rows_def in_window_def other_scenario_def event_def scenario_start_def scenario_now_def)

theorem taken_missed_le_total_witness:
  "days_arg Map.empty = Some 30 \<and> minus_days scenario_now 30 = Some scenario_start \<and>
   (\<exists>resp. get_statistics (Connected other_scenario) scenario_now Map.empty = Inr resp
      \<and> total_doses (stats resp) = 2 \<and> doses_taken (stats resp) = 1 \<and> doses_missed (stats resp) = 0
      \<and> doses_taken (stats resp) + doses_missed (stats resp) < total_doses (stats resp))"
proof -
  from taken_missed_le_total[OF days_arg_empty minus_days_scenario_now, of other_scenario]
  obtain resp where r: "get_statistics (Connected other_scenario) scenario_now Map.empty = Inr resp"
    and "doses_taken (stats resp) + doses_missed (stats resp) \<le> total_doses (stats resp)"
    by blast
  have "resp = statistics_body other_scenario 30 scenario_start scenario_now"
    using r get_statistics_ok[OF days_arg_empty minus_days_scenario_now, of other_scenario] by simp
  then have "total_doses (stats resp) = 2 \<and> doses_taken (stats resp) = 1 \<and> doses_missed (stats resp) = 0"
    by (simp add: counts_of_body window_other_scenario) (simp add: other_scenario_def event_def case_sum_def)
  with r show ?thesis by (simp add: days_arg_empty minus_days_scenario_now)
qed


section \<open>Dates without events\<close>

lemma streak_loop_last:
  "fst (streak_loop (t, b) xs) = last (counter_run t (map (\<lambda>x. snd (snd x) \<ge> 3) xs))"
  by (induction xs arbitrary: t b) (simp_all add: streak_step_eq counter_run_not_Nil)

lemma daily_data_dates:
  "fst ` set (select_daily_data T s e) = dates_present (window_rows T s e)"
  by (simp add: select_daily_data_eq set_dates_desc image_image)

lemma daily_data_row:
  assumes "row \<in> set (select_daily_data T s e)"
  shows "fst row \<in> dates_present (window_rows T s e)"
    and "1 \<le> fst (snd row)"
    and "snd (snd row) = count_on (window_rows T s e) (fst row) ''TAKEN''"
proof -
  from assms obtain d where d: "d \<in> dates_present (window_rows T s e)"
    and row: "row = (d, int (length (filter (\<lambda>r. sql_date (timestamp r) = d) (window_rows T s e))),
               count_on (window_rows T s e) d ''TAKEN'')"
    by (auto simp: select_daily_data_eq set_dates_desc)
  show "fst row \<in> dates_present (window_rows T s e)" using d row by simp
  show "snd (snd row) = count_on (window_rows T s e) (fst row) ''TAKEN''" using row by simp
  from d obtain r where "r \<in> set (window_rows T s e)" "sql_date (timestamp r) = d"
    by (auto simp: dates_present_def)
  then have "filter (\<lambda>r. sql_date (timestamp r) = d) (window_rows T s e) \<noteq> []"
    by (auto simp: filter_empty_conv)
  then have "0 < length (filter (\<lambda>r. sql_date (timestamp r) = d) (window_rows T s e))"
    by simp
  then have "1 \<le> int (length (filter (\<lambda>r. sql_date (timestamp r) = d) (window_rows T s e)))"
    by linarith
  then show "1 \<le> fst (snd row)" by (simp only: row fst_conv snd_conv)
qed

text \<open>
  C4. The scan runs over the dates that have at least one event in the window, and over
  no other date: a date without events is not among the rows of the grouped query. A step
  of the loop either increments the counter or resets it to 0, and it resets only on a
  row whose date has at least one event and fewer than three TAKEN events in the window.
  Both streaks are functions of the run of the counter over the dates present, so a gap
  between two dates present breaks neither: with three TAKEN on D-3 and on D-1 and no event
  on D-2 both streaks are 2.
\<close>

theorem reset_only_on_present_date:
  assumes "days_arg args = Some days" and "minus_days now days = Some start_date"
  shows "(\<exists>resp. get_statistics (Connected T) now args = Inr resp
            \<and> current_streak (stats resp) =
                last (counter_run 0 (map (\<lambda>d. count_on (window_rows T start_date now) d ''TAKEN'' \<ge> 3)
                       (dates_desc (window_rows T start_date now))))
            \<and> best_streak (stats resp) =
                Max (set (counter_run 0 (map (\<lambda>d. count_on (window_rows T start_date now) d ''TAKEN'' \<ge> 3)
                       (dates_desc (window_rows T start_date now))))))
         \<and> fst ` set (select_daily_data T start_date now) = dates_present (window_rows T start_date now)
         \<and> (\<forall>row\<in>set (select_daily_data T start_date now). \<forall>t b.
               fst (streak_step (t, b) row) = t + 1
               \<or> (fst (streak_step (t, b) row) = 0
                   \<and> fst row \<in> dates_present (window_rows T start_date now)
                   \<and> 1 \<le> fst (snd row)
                   \<and> count_on (window_rows T start_date now) (fst row) ''TAKEN'' < 3))
         \<and> map_sum id (\<lambda>resp. (current_streak (stats resp), best_streak (stats resp)))
              (get_statistics (Connected gap_scenario) scenario_now Map.empty) = Inr (2, 2)"
proof (intro conjI)
  let ?bs = "map (\<lambda>d. count_on (window_rows T start_date now) d ''TAKEN'' \<ge> 3)
                     (dates_desc (window_rows T start_date now))"
  have "0 \<le> Max (set (counter_run 0 ?bs))"
    by (rule head_le_Max_counter_run)
  then have best: "snd (streak_loop (0, 0) (select_daily_data T start_date now)) = Max (set (counter_run 0 ?bs))"
    by (simp add: streak_loop_best complete_flags)
  have cur: "fst (streak_loop (0, 0) (select_daily_data T start_date now)) = last (counter_run 0 ?bs)"
    by (simp add: streak_loop_last complete_flags)
  show "\<exists>resp. get_statistics (Connected T) now args = Inr resp
            \<and> current_streak (stats resp) = last (counter_run 0 ?bs)
            \<and> best_streak (stats resp) = Max (set (counter_run 0 ?bs))"
    by (simp add: get_statistics_ok[OF assms] streaks_of_body best cur)
  show "fst ` set (select_daily_data T start_date now) = dates_present (window_rows T start_date now)"
    by (rule daily_data_dates)
  show "\<forall>row\<in>set (select_daily_data T start_date now). \<forall>t b.
               fst (streak_step (t, b) row) = t + 1
               \<or> (fst (streak_step (t, b) row) = 0
                   \<and> fst row \<in> dates_present (window_rows T start_date now)
                   \<and> 1 \<le> fst (snd row)
                   \<and> count_on (window_rows T start_date now) (fst row) ''TAKEN'' < 3)"
    using daily_data_row[of _ T start_date now] by (auto simp: streak_step_eq)
  show "map_sum id (\<lambda>resp. (current_streak (stats resp), best_streak (stats resp)))
              (get_statistics (Connected gap_scenario) scenario_now Map.empty) = Inr (2, 2)"
    by (simp add: get_statistics_ok[OF days_arg_empty minus_days_scenario_now] streaks_of_body
        daily_gap_scenario streak_step_eq)
qed

theorem reset_only_on_present_date_witness:
  "days_arg Map.empty = Some 30 \<and> minus_days scenario_now 30 = Some scenario_start
   \<and> (2024, 3, 8) \<notin> fst ` set (select_daily_data gap_scenario scenario_start scenario_now)
   \<and> map_sum id (\<lambda>resp. (current_streak (stats resp), best_streak (stats resp)))
        (get_statistics (Connected gap_scenario) scenario_now Map.empty) = Inr (2, 2)"
proof -
  note th = reset_only_on_present_date[OF days_arg_empty minus_days_scenario_now, of gap_scenario]
  from th have "fst ` set (select_daily_data gap_scenario scenario_start scenario_now)
      = dates_present (window_rows gap_scenario scenario_start scenario_now)"
    by blast
  moreover have "(2024, 3, 8) \<notin> dates_present (window_rows gap_scenario scenario_start scenario_now)"
    unfolding window_gap_scenario by (simp add: dates_present_def gap_scenario_def event_def sql_date_def)
  ultimately have "(2024, 3, 8) \<notin> fst ` set (select_daily_data gap_scenario scenario_start scenario_now)"
    by simp
  with th show ?thesis by (simp add: days_arg_empty minus_days_scenario_now)
qed

section \<open>Ingestion\<close>

lemma log_dose_invalid:
  "\<not> truthy data \<or> (\<exists>kvs. data = JObj kvs \<and> ''event_type'' \<notin> set (map fst kvs)) \<Longrightarrow>
   log_dose insert_row data db
     = (Inr \<lparr>status_code = 400, status = ''error'', message = ''Invalid data''\<rparr>, db)"
  by (auto simp: log_dose_def)

lemma log_dose_object_with_key:
  assumes "''event_type'' \<in> set (map fst kvs)"
  shows "log_dose insert_row (JObj kvs) db =
     (case insert_row db (case map_of kvs ''event_type'' of None \<Rightarrow> JNull | Some v \<Rightarrow> v)
                         (case map_of kvs ''dose_number'' of None \<Rightarrow> JNull | Some v \<Rightarrow> v) of
        Inl msg \<Rightarrow> (Inr \<lparr>status_code = 500, status = ''error'', message = msg\<rparr>, db)
      | Inr db' \<Rightarrow> (Inr \<lparr>status_code = 201, status = ''success'', message = ''Log received''\<rparr>, db'))"
proof -
  from assms have "kvs \<noteq> []" by auto
  with assms show ?thesis by (simp add: log_dose_def)
qed

lemma log_dose_object_with_key_not_400:
  "''event_type'' \<in> set (map fst kvs) \<Longrightarrow> http_status (fst (log_dose insert_row (JObj kvs) db)) \<noteq> 400"
  by (simp add: log_dose_object_with_key http_status_def split: sum.splits)

text \<open>
  C5. A body that is absent or lacks the key \<^verbatim>\<open>event_type\<close> is to be answered with
  status 400. The handler does so for an absent body, for \<^verbatim>\<open>null\<close>, for an empty value
  and for an object without the key (\<open>log_dose_invalid\<close>), and it never answers 400 to an
  object that has the key (\<open>log_dose_object_with_key_not_400\<close>). For a body that is a
  number other than 0 the test \<^verbatim>\<open>'event_type' not in data\<close> raises \<^verbatim>\<open>TypeError\<close>
  outside the \<^verbatim>\<open>try\<close>: the answer is status 500, not 400. The store is unchanged.
\<close>

theorem log_dose_number_body:
  "log_dose insert_row (JInt 5) db = (Inl TypeError, db)
   \<and> http_status (fst (log_dose insert_row (JInt 5) db)) = 500"
  by (simp add: log_dose_def http_status_def)

section \<open>Querying events\<close>

lemma date_in_length: "date_in s = Some d \<Longrightarrow> length s = 10"
  by (simp add: date_in_def split: if_splits)

lemma timestamp_in_date: "date_in s = Some d \<Longrightarrow> timestamp_in s = Some (d, (0, 0, 0, 0))"
  by (frule date_in_length) (simp add: timestamp_in_def)

lemma time_in_end_of_day: "time_in ''23:59:59'' = Some (23, 59, 59, 0)"
  by (simp add: time_in_def number_of_def digit_val_def valid_time_def)

lemma timestamp_in_end_of_day:
  assumes "date_in s = Some d"
  shows "timestamp_in (s @ '' 23:59:59'') = Some (d, (23, 59, 59, 0))"
proof -
  have len: "length s = 10" using assms by (rule date_in_length)
  then have "(s @ '' 23:59:59'') ! 10 = CHR '' ''" by (simp add: nth_append)
  moreover have "take 10 (s @ '' 23:59:59'') = s" using len by simp
  moreover have "drop 11 (s @ '' 23:59:59'') = ''23:59:59''" using len by simp
  ultimately show ?thesis
    using len assms by (simp add: timestamp_in_def time_in_end_of_day)
qed

lemma get_events_InrD:
  assumes "get_events (Connected T) args = Inr resp"
  shows "\<exists>lo hi n.
      bound_in (if given (args ''start_date'') then args ''start_date'' else None) = Some lo
    \<and> bound_in (if given (args ''end_date'')
                 then map_option (\<lambda>s. s @ '' 23:59:59'') (args ''end_date'') else None) = Some hi
    \<and> limit_rows (limit_arg args) = Some n
    \<and> events resp = map event_of_row
         (take n (rev (sort_key timestamp (filter (\<lambda>r. at_or_after lo r \<and> at_or_before hi r) T))))
    \<and> count resp = int (length (events resp))"
  using assms
  by (auto simp: get_events_def select_events_def Let_def split: option.splits sum.splits)


lemma sorted_desc_take_rev_sort:
  "sorted_wrt (\<lambda>a b. f b \<le> f a) (take n (rev (sort_key f xs)))"
proof -
  have "sorted (map f (sort_key f xs))" by simp
  then have "sorted_wrt (\<lambda>a b. f a \<le> f b) (sort_key f xs)"
    by (simp add: sorted_map)
  then have "sorted_wrt (\<lambda>a b. f b \<le> f a) (rev (sort_key f xs))"
    by (simp add: sorted_wrt_rev)
  then show ?thesis by (rule sorted_wrt_take)
qed

lemma limit_rows_default: "args ''limit'' = None \<Longrightarrow> limit_rows (limit_arg args) = Some 100"
  by (simp add: limit_rows_def limit_arg_def)

lemma limit_rows_text:
  "args ''limit'' = Some s \<Longrightarrow> limit_rows (limit_arg args) = Some n \<Longrightarrow>
   \<exists>N. int8_in s = Some N \<and> 0 \<le> N \<and> n = nat N"
  by (auto simp: limit_rows_def limit_arg_def split: option.splits if_splits)

text \<open>
  C7. An answer of \<^verbatim>\<open>get_events\<close> holds at most \<open>n\<close> rows, where \<open>n\<close> is the number the
  \<^verbatim>\<open>limit\<close> parameter reads as, and 100 when the parameter is absent; the rows are in
  descending order of timestamp; \<^verbatim>\<open>count\<close> is their number. Without date parameters the
  answer holds exactly the \<open>n\<close> newest rows of the table, or all rows when there are fewer.
\<close>

theorem events_limit_and_order:
  assumes "get_events (Connected T) args = Inr resp"
  shows "\<exists>rows n. events resp = map event_of_row rows \<and> count resp = int (length rows)
           \<and> limit_rows (limit_arg args) = Some n \<and> length rows \<le> n
           \<and> sorted_wrt (\<lambda>a b. timestamp b \<le> timestamp a) rows
           \<and> (args ''limit'' = None \<longrightarrow> n = 100)
           \<and> (\<forall>s N. args ''limit'' = Some s \<longrightarrow> int8_in s = Some N \<longrightarrow> 0 \<le> N \<and> n = nat N)
           \<and> (\<not> given (args ''start_date'') \<longrightarrow> \<not> given (args ''end_date'') \<longrightarrow>
                length rows = min n (length T))"
proof -
  from get_events_InrD[OF assms] obtain lo hi n where
    lo: "bound_in (if given (args ''start_date'') then args ''start_date'' else None) = Some lo"
    and hi: "bound_in (if given (args ''end_date'')
                 then map_option (\<lambda>s. s @ '' 23:59:59'') (args ''end_date'') else None) = Some hi"
    and n: "limit_rows (limit_arg args) = Some n"
    and ev: "events resp = map event_of_row
         (take n (rev (sort_key timestamp (filter (\<lambda>r. at_or_after lo r \<and> at_or_before hi r) T))))"
    and cnt: "count resp = int (length (events resp))"
    by blast
  let ?rows = "take n (rev (sort_key timestamp (filter (\<lambda>r. at_or_after lo r \<and> at_or_before hi r) T)))"
  have 1: "count resp = int (length ?rows)" using cnt ev by simp
  have 2: "length ?rows \<le> n" by simp
  have 3: "sorted_wrt (\<lambda>a b. timestamp b \<le> timestamp a) ?rows"
    by (rule sorted_desc_take_rev_sort)
  have 4: "args ''limit'' = None \<longrightarrow> n = 100"
    using n limit_rows_default[of args] by auto
  have 5: "\<forall>s N. args ''limit'' = Some s \<longrightarrow> int8_in s = Some N \<longrightarrow> 0 \<le> N \<and> n = nat N"
    using n limit_rows_text[of args _ n] by auto
  have 6: "\<not> given (args ''start_date'') \<longrightarrow> \<not> given (args ''end_date'') \<longrightarrow>
                length ?rows = min n (length T)"
    using lo hi by (auto simp: bound_in_def at_or_after_def at_or_before_def)
  show ?thesis
    by (rule exI[of _ ?rows], rule exI[of _ n]) (use ev 1 n 2 3 4 5 6 in blast)
qed


lemma int8_in_2: "int8_in ''2'' = Some 2"
  by (simp add: int8_in_def number_of_def digit_val_def)

lemma get_events_limit_args:
  "get_events (Connected adherence_scenario) limit_args =
     Inr \<lparr>count = 2, events = map event_of_row
       [event 9 ''MISSED'' ((2024, 3, 10), (20, 0, 0, 0)), event 8 ''MISSED'' ((2024, 3, 10), (13, 0, 0, 0))]\<rparr>"
  by (simp add: get_events_def select_events_def bound_in_def limit_rows_def limit_arg_def
      limit_args_def int8_in_2 given_def at_or_after_def at_or_before_def
      adherence_scenario_def event_def Let_def)

theorem events_limit_and_order_witness:
  "get_events (Connected adherence_scenario) limit_args =
     Inr \<lparr>count = 2, events = map event_of_row
       [event 9 ''MISSED'' ((2024, 3, 10), (20, 0, 0, 0)), event 8 ''MISSED'' ((2024, 3, 10), (13, 0, 0, 0))]\<rparr>
   \<and> limit_args ''limit'' = Some ''2'' \<and> int8_in ''2'' = Some 2
   \<and> (\<exists>rows. map event_of_row
          [event 9 ''MISSED'' ((2024, 3, 10), (20, 0, 0, 0)), event 8 ''MISSED'' ((2024, 3, 10), (13, 0, 0, 0))]
            = map event_of_row rows
        \<and> length rows \<le> 2 \<and> sorted_wrt (\<lambda>a b. timestamp b \<le> timestamp a) rows)"
proof -
  have l: "limit_args ''limit'' = Some ''2''" by (simp add: limit_args_def)
  from events_limit_and_order[OF get_events_limit_args] obtain rows n where
    "events \<lparr>count = 2, events = map event_of_row
       [event 9 ''MISSED'' ((2024, 3, 10), (20, 0, 0, 0)), event 8 ''MISSED'' ((2024, 3, 10), (13, 0, 0, 0))]\<rparr>
       = map event_of_row rows"
    and "length rows \<le> n" and "sorted_wrt (\<lambda>a b. timestamp b \<le> timestamp a) rows"
    and "\<forall>s N. limit_args ''limit'' = Some s \<longrightarrow> int8_in s = Some N \<longrightarrow> 0 \<le> N \<and> n = nat N"
    by blast
  moreover from this l int8_in_2 have "n = 2" by fastforce
  ultimately show ?thesis using get_events_limit_args l int8_in_2 by auto
qed

lemma take_not_cut:
  "length (take n xs) \<noteq> n \<Longrightarrow> take n xs = xs"
  by (simp add: min_def split: if_splits)

text \<open>
  C6. Every row of an answer of \<^verbatim>\<open>get_events\<close> is a row of the table whose timestamp is
  not before 00:00:00 of \<^verbatim>\<open>start_date\<close>, when that parameter is a date D1, and not after
  23:59:59 of \<^verbatim>\<open>end_date\<close>, when that parameter is a date D2. A row of the table is left
  out of the answer only by the limit or by a bound whose parameter is given (present and
  not empty): a bound that is not given excludes nothing.
\<close>

theorem events_date_range:
  assumes "get_events (Connected T) args = Inr resp"
  shows "\<exists>rows n. events resp = map event_of_row rows \<and> set rows \<subseteq> set T
           \<and> limit_rows (limit_arg args) = Some n
           \<and> (\<forall>r\<in>set rows.
                 (\<forall>s D1. args ''start_date'' = Some s \<longrightarrow> date_in s = Some D1 \<longrightarrow>
                    (D1, (0, 0, 0, 0)) \<le> timestamp r)
               \<and> (\<forall>e D2. args ''end_date'' = Some e \<longrightarrow> date_in e = Some D2 \<longrightarrow>
                    timestamp r \<le> (D2, (23, 59, 59, 0))))
           \<and> (\<forall>r\<in>set T. r \<notin> set rows \<longrightarrow>
                 length rows = n
               \<or> (\<exists>s l. args ''start_date'' = Some s \<and> s \<noteq> [] \<and> timestamp_in s = Some l
                      \<and> timestamp r < l)
               \<or> (\<exists>e h. args ''end_date'' = Some e \<and> e \<noteq> []
                      \<and> timestamp_in (e @ '' 23:59:59'') = Some h \<and> h < timestamp r))"
proof -
  from get_events_InrD[OF assms] obtain lo hi n where
    lo: "bound_in (if given (args ''start_date'') then args ''start_date'' else None) = Some lo"
    and hi: "bound_in (if given (args ''end_date'')
                 then map_option (\<lambda>s. s @ '' 23:59:59'') (args ''end_date'') else None) = Some hi"
    and n: "limit_rows (limit_arg args) = Some n"
    and ev: "events resp = map event_of_row
         (take n (rev (sort_key timestamp (filter (\<lambda>r. at_or_after lo r \<and> at_or_before hi r) T))))"
    by blast
  let ?all = "rev (sort_key timestamp (filter (\<lambda>r. at_or_after lo r \<and> at_or_before hi r) T))"
  let ?rows = "take n ?all"
  have sub: "set ?rows \<subseteq> {r \<in> set T. at_or_after lo r \<and> at_or_before hi r}"
    using set_take_subset[of n ?all] by auto
  then have 1: "set ?rows \<subseteq> set T" by auto
  have lower: "(D1, (0, 0, 0, 0)) \<le> timestamp r"
    if "r \<in> set ?rows" "args ''start_date'' = Some s" "date_in s = Some D1" for r s D1
  proof -
    have "s \<noteq> []" using date_in_length[OF that(3)] by auto
    then have "lo = Some (D1, (0, 0, 0, 0))"
      using lo that(2) timestamp_in_date[OF that(3)] by (simp add: given_def bound_in_def)
    moreover have "at_or_after lo r" using sub that(1) by auto
    ultimately show ?thesis by (simp add: at_or_after_def)
  qed
  have upper: "timestamp r \<le> (D2, (23, 59, 59, 0))"
    if "r \<in> set ?rows" "args ''end_date'' = Some e" "date_in e = Some D2" for r e D2
  proof -
    have "e \<noteq> []" using date_in_length[OF that(3)] by auto
    then have "hi = Some (D2, (23, 59, 59, 0))"
      using hi that(2) timestamp_in_end_of_day[OF that(3)] by (simp add: given_def bound_in_def)
    moreover have "at_or_before hi r" using sub that(1) by auto
    ultimately show ?thesis by (simp add: at_or_before_def)
  qed
  have 2: "\<forall>r\<in>set ?rows.
                 (\<forall>s D1. args ''start_date'' = Some s \<longrightarrow> date_in s = Some D1 \<longrightarrow>
                    (D1, (0, 0, 0, 0)) \<le> timestamp r)
               \<and> (\<forall>e D2. args ''end_date'' = Some e \<longrightarrow> date_in e = Some D2 \<longrightarrow>
                    timestamp r \<le> (D2, (23, 59, 59, 0)))"
    using lower upper by blast
  have 3: "length ?rows = n
               \<or> (\<exists>s l. args ''start_date'' = Some s \<and> s \<noteq> [] \<and> timestamp_in s = Some l
                      \<and> timestamp r < l)
               \<or> (\<exists>e h. args ''end_date'' = Some e \<and> e \<noteq> []
                      \<and> timestamp_in (e @ '' 23:59:59'') = Some h \<and> h < timestamp r)"
    if r: "r \<in> set T" "r \<notin> set ?rows" for r
  proof (cases "length ?rows = n")
    case True
    then show ?thesis by simp
  next
    case False
    then have "?rows = ?all" by (rule take_not_cut)
    with r have "\<not> (at_or_after lo r \<and> at_or_before hi r)" by auto
    then consider "\<not> at_or_after lo r" | "\<not> at_or_before hi r" by blast
    then show ?thesis
    proof cases
      case 1
      then obtain l where l: "lo = Some l" "timestamp r < l"
        by (auto simp: at_or_after_def split: option.splits)
      with lo have "\<exists>s. args ''start_date'' = Some s \<and> s \<noteq> [] \<and> timestamp_in s = Some l"
        by (auto simp: bound_in_def given_def split: if_splits option.splits)
      with l show ?thesis by blast
    next
      case 2
      then obtain h where h: "hi = Some h" "h < timestamp r"
        by (auto simp: at_or_before_def split: option.splits)
      with hi have "\<exists>e. args ''end_date'' = Some e \<and> e \<noteq> []
          \<and> timestamp_in (e @ '' 23:59:59'') = Some h"
        by (auto simp: bound_in_def given_def split: if_splits option.splits)
      with h show ?thesis by blast
    qed
  qed
  show ?thesis
    by (rule exI[of _ ?rows], rule exI[of _ n]) (use ev 1 n 2 3 in blast)
qed


lemma date_in_march_9: "date_in ''2024-03-09'' = Some (2024, 3, 9)"
  by (simp add: date_in_def number_of_def digit_val_def valid_date_def days_in_month_def
      DAYS_IN_MONTH_def is_leap_def)

lemma get_events_range_args:
  "get_events (Connected adherence_scenario) range_args =
     Inr \<lparr>count = 3, events = map event_of_row
       [event 6 ''TAKEN'' ((2024, 3, 9), (20, 0, 0, 0)), event 5 ''TAKEN'' ((2024, 3, 9), (13, 0, 0, 0)),
        event 4 ''TAKEN'' ((2024, 3, 9), (8, 0, 0, 0))]\<rparr>"
proof -
  have lo: "bound_in (Some ''2024-03-09'') = Some (Some ((2024, 3, 9), (0, 0, 0, 0)))"
    by (simp add: bound_in_def timestamp_in_date[OF date_in_march_9])
  have hi: "bound_in (Some (''2024-03-09'' @ '' 23:59:59'')) = Some (Some ((2024, 3, 9), (23, 59, 59, 0)))"
    by (simp only: bound_in_def timestamp_in_end_of_day[OF date_in_march_9] option.case option.map)
  have "select_events adherence_scenario (Some ''2024-03-09'') (Some (''2024-03-09'' @ '' 23:59:59''))
          (Limit_int 100)
        = Inr [event 6 ''TAKEN'' ((2024, 3, 9), (20, 0, 0, 0)), event 5 ''TAKEN'' ((2024, 3, 9), (13, 0, 0, 0)),
               event 4 ''TAKEN'' ((2024, 3, 9), (8, 0, 0, 0))]"
    unfolding select_events_def lo hi
    by (simp add: limit_rows_def at_or_after_def at_or_before_def adherence_scenario_def event_def)
  then show ?thesis
    by (simp add: get_events_def limit_arg_def range_args_def given_def Let_def)
qed

theorem events_date_range_witness:
  "get_events (Connected adherence_scenario) range_args =
     Inr \<lparr>count = 3, events = map event_of_row
       [event 6 ''TAKEN'' ((2024, 3, 9), (20, 0, 0, 0)), event 5 ''TAKEN'' ((2024, 3, 9), (13, 0, 0, 0)),
        event 4 ''TAKEN'' ((2024, 3, 9), (8, 0, 0, 0))]\<rparr>
   \<and> range_args ''start_date'' = Some ''2024-03-09'' \<and> range_args ''end_date'' = Some ''2024-03-09''
   \<and> date_in ''2024-03-09'' = Some (2024, 3, 9)
   \<and> (\<exists>rows. map event_of_row
         [event 6 ''TAKEN'' ((2024, 3, 9), (20, 0, 0, 0)), event 5 ''TAKEN'' ((2024, 3, 9), (13, 0, 0, 0)),
          event 4 ''TAKEN'' ((2024, 3, 9), (8, 0, 0, 0))] = map event_of_row rows
        \<and> set rows \<subseteq> set adherence_scenario
        \<and> list_all (\<lambda>r. ((2024, 3, 9), (0, 0, 0, 0)) \<le> timestamp r
                        \<and> timestamp r \<le> ((2024, 3, 9), (23, 59, 59, 0))) rows)"
proof -
  have a: "range_args ''start_date'' = Some ''2024-03-09''" "range_args ''end_date'' = Some ''2024-03-09''"
    by (simp_all add: range_args_def)
  from events_date_range[OF get_events_range_args] obtain rows where
    ev: "events \<lparr>count = 3, events = map event_of_row
       [event 6 ''TAKEN'' ((2024, 3, 9), (20, 0, 0, 0)), event 5 ''TAKEN'' ((2024, 3, 9), (13, 0, 0, 0)),
        event 4 ''TAKEN'' ((2024, 3, 9), (8, 0, 0, 0))]\<rparr> = map event_of_row rows"
    and sub: "set rows \<subseteq> set adherence_scenario"
    and rng: "\<forall>r\<in>set rows.
                 (\<forall>s D1. range_args ''start_date'' = Some s \<longrightarrow> date_in s = Some D1 \<longrightarrow>
                    (D1, (0, 0, 0, 0)) \<le> timestamp r)
               \<and> (\<forall>e D2. range_args ''end_date'' = Some e \<longrightarrow> date_in e = Some D2 \<longrightarrow>
                    timestamp r \<le> (D2, (23, 59, 59, 0)))"
    by blast
  from rng a date_in_march_9 have
    "list_all (\<lambda>r. ((2024, 3, 9), (0, 0, 0, 0)) \<le> timestamp r
                        \<and> timestamp r \<le> ((2024, 3, 9), (23, 59, 59, 0))) rows"
    unfolding list_all_iff by blast
  with ev sub a date_in_march_9 get_events_range_args show ?thesis by auto
qed

section \<open>The daily breakdown\<close>

lemma digit_char_inj:
  assumes "digit_char a = digit_char b" "0 \<le> a" "a < 10" "0 \<le> b" "b < 10"
  shows "a = b"
proof -
  have "distinct ''0123456789''" by simp
  moreover have "nat a < length ''0123456789''" "nat b < length ''0123456789''"
    using assms by simp_all
  ultimately have "nat a = nat b"
    using assms(1) unfolding digit_char_def by (simp only: nth_eq_iff_index_eq)
  with assms show ?thesis by simp
qed

lemma pad2_inj:
  assumes "pad2 a = pad2 b" "0 \<le> a" "a < 100" "0 \<le> b" "b < 100"
  shows "a = b"
proof -
  from assms(1) have e: "digit_char (a div 10) = digit_char (b div 10)"
    "digit_char (a mod 10) = digit_char (b mod 10)"
    by (simp_all add: pad2_def)
  have "a div 10 = b div 10"
    using e(1) assms(2-) by (intro digit_char_inj) simp_all
  moreover have "a mod 10 = b mod 10"
    using e(2) by (intro digit_char_inj) simp_all
  ultimately show ?thesis by (metis div_mult_mod_eq)
qed

lemma pad4_inj:
  assumes "pad4 a = pad4 b" "0 \<le> a" "a < 10000" "0 \<le> b" "b < 10000"
  shows "a = b"
proof -
  from assms(1) have e: "digit_char (a div 1000) = digit_char (b div 1000)"
    "digit_char (a div 100 mod 10) = digit_char (b div 100 mod 10)"
    "digit_char (a div 10 mod 10) = digit_char (b div 10 mod 10)"
    "digit_char (a mod 10) = digit_char (b mod 10)"
    by (simp_all add: pad4_def)
  have 1: "a div 1000 = b div 1000"
    using e(1) assms(2-) by (intro digit_char_inj) simp_all
  have 2: "a div 100 mod 10 = b div 100 mod 10"
    using e(2) by (intro digit_char_inj) simp_all
  have 3: "a div 10 mod 10 = b div 10 mod 10"
    using e(3) by (intro digit_char_inj) simp_all
  have 4: "a mod 10 = b mod 10"
    using e(4) by (intro digit_char_inj) simp_all
  have "a div 10 = b div 10"
  proof -
    have "a div 100 = b div 100"
    proof -
      have "x div 100 div 10 = x div 1000" for x :: int
        by (subst zdiv_zmult2_eq[symmetric]) simp_all
      then have "a div 100 div 10 = b div 100 div 10" using 1 by simp
      with 2 show ?thesis by (metis div_mult_mod_eq)
    qed
    moreover have "x div 10 div 10 = x div 100" for x :: int
      by (subst zdiv_zmult2_eq[symmetric]) simp_all
    ultimately have "a div 10 div 10 = b div 10 div 10" by simp
    with 3 show ?thesis by (metis div_mult_mod_eq)
  qed
  with 4 show ?thesis by (metis div_mult_mod_eq)
qed

lemma days_in_month_le: "1 \<le> m \<Longrightarrow> m \<le> 12 \<Longrightarrow> days_in_month y m \<le> 31"
proof -
  assume "1 \<le> m" "m \<le> 12"
  then have "m \<in> {1, 2, 3, 4, 5, 6, 7, 8, 9, 10, 11, 12}" by simp arith
  then show ?thesis
    by (auto simp: days_in_month_def DAYS_IN_MONTH_def)
qed


lemma isoformat_date_inj:
  assumes "isoformat_date d1 = isoformat_date d2" "valid_date d1" "valid_date d2"
  shows "d1 = d2"
proof -
  obtain y1 m1 a1 where d1: "d1 = (y1, m1, a1)" by (cases d1) auto
  obtain y2 m2 a2 where d2: "d2 = (y2, m2, a2)" by (cases d2) auto
  from assms(2) d1 have v1: "1 \<le> y1" "y1 \<le> 9999" "1 \<le> m1" "m1 \<le> 12" "1 \<le> a1" "a1 \<le> days_in_month y1 m1"
    by (simp_all add: valid_date_def)
  from assms(3) d2 have v2: "1 \<le> y2" "y2 \<le> 9999" "1 \<le> m2" "m2 \<le> 12" "1 \<le> a2" "a2 \<le> days_in_month y2 m2"
    by (simp_all add: valid_date_def)
  have a1: "a1 < 100" using v1 days_in_month_le[of m1 y1] by linarith
  have a2: "a2 < 100" using v2 days_in_month_le[of m2 y2] by linarith
  have l4: "length (pad4 y1) = length (pad4 y2)" by (simp add: pad4_def)
  have l2: "length (pad2 m1) = length (pad2 m2)" by (simp add: pad2_def)
  from assms(1) have eq: "pad4 y1 = pad4 y2" "pad2 m1 = pad2 m2" "pad2 a1 = pad2 a2"
    unfolding d1 d2 isoformat_date_def using l4 l2 by simp_all
  have "y1 = y2" using eq(1) v1 v2 by (intro pad4_inj) simp_all
  moreover have "m1 = m2" using eq(2) v1 v2 by (intro pad2_inj) simp_all
  moreover have "a1 = a2" using eq(3) v1 v2 a1 a2 by (intro pad2_inj) simp_all
  ultimately show ?thesis by (simp add: d1 d2)
qed

lemma events_by_day_loop_dom:
  "dom (events_by_day_loop m rows) = dom m \<union> isoformat_date ` fst ` set rows"
proof (induction rows arbitrary: m)
  case Nil
  then show ?case by simp
next
  case (Cons row rows)
  obtain d t c where row: "row = (d, t, c)" by (cases row) auto
  have "dom (events_by_day_step m row) = insert (isoformat_date d) (dom m)"
    by (simp add: events_by_day_step_def row Let_def)
  then show ?case by (simp add: Cons.IH row)
qed

lemma entry_of_Some: "m k = Some e \<Longrightarrow> entry_of m k = e"
  by (simp add: entry_of_def)

lemma events_by_day_step_other:
  "isoformat_date (fst row) \<noteq> k \<Longrightarrow> events_by_day_step m row k = m k"
  by (cases row) (simp add: events_by_day_step_def Let_def)

lemma events_by_day_step_same:
  "events_by_day_step m (d, t, c) (isoformat_date d) =
     Some (if t = Some ''TAKEN'' then (entry_of m (isoformat_date d))\<lparr>taken := c\<rparr>
           else if t = Some ''MISSED'' then (entry_of m (isoformat_date d))\<lparr>missed := c\<rparr>
           else entry_of m (isoformat_date d))"
  by (simp add: events_by_day_step_def Let_def entry_of_def)

lemma entry_of_step:
  "entry_of (events_by_day_step m (d', t, c)) (isoformat_date d) =
     (if isoformat_date d' = isoformat_date d
      then (if t = Some ''TAKEN'' then (entry_of m (isoformat_date d))\<lparr>taken := c\<rparr>
            else if t = Some ''MISSED'' then (entry_of m (isoformat_date d))\<lparr>missed := c\<rparr>
            else entry_of m (isoformat_date d))
      else entry_of m (isoformat_date d))"
proof (cases "isoformat_date d' = isoformat_date d")
  case True
  show ?thesis
    using events_by_day_step_same[of m d' t c] True
    by (simp add: entry_of_Some)
next
  case False
  then have "events_by_day_step m (d', t, c) (isoformat_date d) = m (isoformat_date d)"
    by (simp add: events_by_day_step_other)
  with False show ?thesis by (simp add: entry_of_def)
qed

lemma entry_of_loop:
  assumes "\<forall>row\<in>set rows. valid_date (fst row) \<and> snd (snd row) = f (fst row) (fst (snd row))"
    and "valid_date d"
  shows "taken (entry_of (events_by_day_loop m rows) (isoformat_date d)) =
           (if (d, Some ''TAKEN'') \<in> (\<lambda>row. (fst row, fst (snd row))) ` set rows
            then f d (Some ''TAKEN'') else taken (entry_of m (isoformat_date d)))
       \<and> missed (entry_of (events_by_day_loop m rows) (isoformat_date d)) =
           (if (d, Some ''MISSED'') \<in> (\<lambda>row. (fst row, fst (snd row))) ` set rows
            then f d (Some ''MISSED'') else missed (entry_of m (isoformat_date d)))"
  using assms(1)
proof (induction rows arbitrary: m)
  case Nil
  then show ?case by simp
next
  case (Cons row rows)
  obtain d' t c where row: "row = (d', t, c)" by (cases row) auto
  from Cons.prems row have v: "valid_date d'" and c: "c = f d' t" by simp_all
  from Cons.prems have rest: "\<forall>row\<in>set rows. valid_date (fst row) \<and> snd (snd row) = f (fst row) (fst (snd row))"
    by simp
  have iff: "isoformat_date d' = isoformat_date d \<longleftrightarrow> d' = d"
    using isoformat_date_inj[OF _ v assms(2)] by blast
  have step: "entry_of (events_by_day_step m (d', t, c)) (isoformat_date d) =
     (if d' = d
      then (if t = Some ''TAKEN'' then (entry_of m (isoformat_date d))\<lparr>taken := c\<rparr>
            else if t = Some ''MISSED'' then (entry_of m (isoformat_date d))\<lparr>missed := c\<rparr>
            else entry_of m (isoformat_date d))
      else entry_of m (isoformat_date d))"
    by (simp only: entry_of_step iff)
  let ?K = "(\<lambda>row. (fst row, fst (snd row))) ` set rows"
  let ?m' = "events_by_day_step m (d', t, c)"
  have loop: "events_by_day_loop m (row # rows) = events_by_day_loop ?m' rows"
    by (simp add: row)
  have K: "(\<lambda>row. (fst row, fst (snd row))) ` set (row # rows) = insert (d', t) ?K"
    by (simp add: row)
  have tk: "taken (entry_of ?m' (isoformat_date d)) =
      (if d' = d \<and> t = Some ''TAKEN'' then c else taken (entry_of m (isoformat_date d)))"
    by (simp add: step)
  have ms: "missed (entry_of ?m' (isoformat_date d)) =
      (if d' = d \<and> t = Some ''MISSED'' then c else missed (entry_of m (isoformat_date d)))"
    by (simp add: step)
  note IH = Cons.IH[OF rest, of ?m', unfolded tk ms]
  have 1: "taken (entry_of (events_by_day_loop ?m' rows) (isoformat_date d)) =
           (if (d, Some ''TAKEN'') \<in> insert (d', t) ?K
            then f d (Some ''TAKEN'') else taken (entry_of m (isoformat_date d)))"
    using IH c by (cases "d' = d \<and> t = Some ''TAKEN''") auto
  have 2: "missed (entry_of (events_by_day_loop ?m' rows) (isoformat_date d)) =
           (if (d, Some ''MISSED'') \<in> insert (d', t) ?K
            then f d (Some ''MISSED'') else missed (entry_of m (isoformat_date d)))"
    using IH c by (cases "d' = d \<and> t = Some ''MISSED''") auto
  show ?case unfolding loop K using 1 2 by (rule conjI)
qed


lemma daily_breakdown_of_body:
  "daily_breakdown (statistics_body T days s e) = events_by_day_loop Map.empty (select_daily_events T s e)"
  by (simp add: statistics_body_def Let_def)

lemma set_select_daily_events:
  "set (select_daily_events T s e) =
     (\<lambda>r. (sql_date (timestamp r), event_type r,
            int (length (filter (\<lambda>r'. sql_date (timestamp r') = sql_date (timestamp r)
                                    \<and> event_type r' = event_type r) (window_rows T s e)))))
       ` set (window_rows T s e)"
  by (auto simp: select_daily_events_def Let_def image_iff)

lemma daily_events_dates:
  "fst ` set (select_daily_events T s e) = dates_present (window_rows T s e)"
  by (simp add: set_select_daily_events dates_present_def image_image)

lemma daily_events_keys:
  "(\<lambda>row. (fst row, fst (snd row))) ` set (select_daily_events T s e)
     = (\<lambda>r. (sql_date (timestamp r), event_type r)) ` set (window_rows T s e)"
  by (simp add: set_select_daily_events image_image)

lemma count_on_zero:
  "(d, Some v) \<notin> (\<lambda>r. (sql_date (timestamp r), event_type r)) ` set W \<Longrightarrow> count_on W d v = 0"
  by (auto simp: count_on_def filter_empty_conv image_iff)

text \<open>
  C9, as amended. \<^verbatim>\<open>daily_breakdown\<close> has one key for each calendar date that has at
  least one event in the window, the ISO text of the date, and maps it to the number of
  TAKEN events and the number of MISSED events of that date that lie in the window
  (\<open>count_on\<close> over the rows of the window), each 0 when there is no such event. A date of
  the range without events in the window has no key.
\<close>

theorem daily_breakdown_of_present_dates:
  assumes "days_arg args = Some days" and "minus_days now days = Some start_date"
    and "\<forall>r\<in>set T. valid_date (sql_date (timestamp r))"
  shows "\<exists>resp. get_statistics (Connected T) now args = Inr resp
           \<and> dom (daily_breakdown resp) = isoformat_date ` dates_present (window_rows T start_date now)
           \<and> (\<forall>d\<in>dates_present (window_rows T start_date now).
                 daily_breakdown resp (isoformat_date d) =
                   Some \<lparr>taken = count_on (window_rows T start_date now) d ''TAKEN'',
                         missed = count_on (window_rows T start_date now) d ''MISSED''\<rparr>)
           \<and> (\<forall>d. valid_date d \<longrightarrow> d \<notin> dates_present (window_rows T start_date now) \<longrightarrow>
                 daily_breakdown resp (isoformat_date d) = None)"
proof -
  let ?W = "window_rows T start_date now"
  let ?rows = "select_daily_events T start_date now"
  let ?m = "events_by_day_loop Map.empty ?rows"
  let ?f = "\<lambda>d t. int (length (filter (\<lambda>r. sql_date (timestamp r) = d \<and> event_type r = t) ?W))"
  have valid: "valid_date d" if "d \<in> dates_present ?W" for d
    using that assms(3) by (auto simp: dates_present_def window_rows_def)
  have rows: "\<forall>row\<in>set ?rows. valid_date (fst row) \<and> snd (snd row) = ?f (fst row) (fst (snd row))"
  proof
    fix row assume "row \<in> set ?rows"
    then obtain r where "r \<in> set ?W" "row = (sql_date (timestamp r), event_type r,
        ?f (sql_date (timestamp r)) (event_type r))"
      unfolding set_select_daily_events by blast
    then show "valid_date (fst row) \<and> snd (snd row) = ?f (fst row) (fst (snd row))"
      using valid[of "sql_date (timestamp r)"] by (simp add: dates_present_def)
  qed
  have dom: "dom ?m = isoformat_date ` dates_present ?W"
    by (simp add: events_by_day_loop_dom daily_events_dates)
  have present: "?m (isoformat_date d) =
      Some \<lparr>taken = count_on ?W d ''TAKEN'', missed = count_on ?W d ''MISSED''\<rparr>"
    if d: "d \<in> dates_present ?W" for d
  proof -
    from d dom obtain e where e: "?m (isoformat_date d) = Some e" by blast
    then have ee: "entry_of ?m (isoformat_date d) = e" by (rule entry_of_Some)
    have z: "entry_of Map.empty (isoformat_date d) = \<lparr>taken = 0, missed = 0\<rparr>"
      by (simp add: entry_of_def)
    from entry_of_loop[OF rows valid[OF d], of Map.empty]
    have "taken e = count_on ?W d ''TAKEN'' \<and> missed e = count_on ?W d ''MISSED''"
      unfolding ee z daily_events_keys
      using count_on_zero[of d _ ?W] by (auto simp: count_on_def)
    then have "e = \<lparr>taken = count_on ?W d ''TAKEN'', missed = count_on ?W d ''MISSED''\<rparr>"
      by (cases e) simp
    with e show ?thesis by simp
  qed
  have absent: "?m (isoformat_date d) = None" if "valid_date d" "d \<notin> dates_present ?W" for d
  proof -
    have "isoformat_date d \<notin> isoformat_date ` dates_present ?W"
    proof
      assume "isoformat_date d \<in> isoformat_date ` dates_present ?W"
      then obtain d' where "d' \<in> dates_present ?W" "isoformat_date d = isoformat_date d'" by blast
      with that valid[of d'] isoformat_date_inj[of d d'] show False by auto
    qed
    with dom show ?thesis by blast
  qed
  show ?thesis
    using dom present absent
    by (simp add: get_statistics_ok[OF assms(1,2)] daily_breakdown_of_body)
qed


lemma isoformat_march:
  "isoformat_date (2024, 3, 7) = ''2024-03-07''"
  "isoformat_date (2024, 3, 8) = ''2024-03-08''"
  "isoformat_date (2024, 3, 9) = ''2024-03-09''"
  "isoformat_date (2024, 3, 10) = ''2024-03-10''"
  by (simp_all add: isoformat_date_def pad4_def pad2_def digit_char_def)

lemma dates_present_gap_scenario:
  "dates_present (window_rows gap_scenario scenario_start scenario_now) = {(2024, 3, 7), (2024, 3, 9)}"
  unfolding window_gap_scenario
  by (auto simp: dates_present_def gap_scenario_def event_def sql_date_def)

lemma window_cut_scenario:
  "window_rows cut_scenario scenario_start scenario_now
     = [event 2 ''TAKEN'' ((2024, 2, 9), (22, 0, 0, 0))]"
  by (simp add: window_rows_def in_window_def cut_scenario_def event_def scenario_start_def
      scenario_now_def)

lemma isoformat_february_9: "isoformat_date (2024, 2, 9) = ''2024-02-09''"
  by (simp add: isoformat_date_def pad4_def pad2_def digit_char_def)

text \<open>
  C9, as stated, asks for an entry for each calendar date in range, with the counts of the
  events of that date. Neither holds. In the gap scenario 2024-03-08 lies within the
  window and has no event: the answer has no entry for it, where the claim expects the
  entry with both counts 0. And the counts are those of the events in the window, not of
  all events of the date: the window starts at 21:00 of 2024-02-09, so of the two TAKEN
  events of that date only the one at 22:00 is counted, and the entry has
  \<^verbatim>\<open>taken\<close> = 1 where the date has 2.
\<close>

theorem daily_breakdown_counterexample:
  "\<not> isl (get_statistics (Connected gap_scenario) scenario_now Map.empty)
   \<and> scenario_start \<le> ((2024, 3, 8), (0, 0, 0, 0))
   \<and> ((2024, 3, 8), (23, 59, 59, 999999)) \<le> scenario_now
   \<and> isoformat_date (2024, 3, 8) = ''2024-03-08''
   \<and> daily_breakdown (projr (get_statistics (Connected gap_scenario) scenario_now Map.empty))
        ''2024-03-08'' = None
   \<and> daily_breakdown (projr (get_statistics (Connected gap_scenario) scenario_now Map.empty))
        ''2024-03-08''
      \<noteq> Some \<lparr>taken = count_on (window_rows gap_scenario scenario_start scenario_now) (2024, 3, 8) ''TAKEN'',
                missed = count_on (window_rows gap_scenario scenario_start scenario_now) (2024, 3, 8) ''MISSED''\<rparr>
   \<and> \<not> isl (get_statistics (Connected cut_scenario) scenario_now Map.empty)
   \<and> isoformat_date (2024, 2, 9) = ''2024-02-09''
   \<and> count_on cut_scenario (2024, 2, 9) ''TAKEN'' = 2
   \<and> daily_breakdown (projr (get_statistics (Connected cut_scenario) scenario_now Map.empty))
        ''2024-02-09'' = Some \<lparr>taken = 1, missed = 0\<rparr>
   \<and> daily_breakdown (projr (get_statistics (Connected cut_scenario) scenario_now Map.empty))
        ''2024-02-09''
      \<noteq> Some \<lparr>taken = count_on cut_scenario (2024, 2, 9) ''TAKEN'',
                missed = count_on cut_scenario (2024, 2, 9) ''MISSED''\<rparr>"
proof -
  have ok: "get_statistics (Connected gap_scenario) scenario_now Map.empty
      = Inr (statistics_body gap_scenario 30 scenario_start scenario_now)"
    by (rule get_statistics_ok[OF days_arg_empty minus_days_scenario_now])
  have "dom (daily_breakdown (statistics_body gap_scenario 30 scenario_start scenario_now))
      = {''2024-03-07'', ''2024-03-09''}"
    by (simp add: daily_breakdown_of_body events_by_day_loop_dom daily_events_dates
        dates_present_gap_scenario isoformat_march)
  then have "''2024-03-08'' \<notin> dom (daily_breakdown (statistics_body gap_scenario 30 scenario_start scenario_now))"
    by simp
  then have n: "daily_breakdown (statistics_body gap_scenario 30 scenario_start scenario_now) ''2024-03-08'' = None"
    by blast
  have w: "scenario_start \<le> ((2024, 3, 8), (0, 0, 0, 0))" "((2024, 3, 8), (23, 59, 59, 999999)) \<le> scenario_now"
    by (simp_all add: scenario_start_def scenario_now_def)
  have gap: "\<not> isl (get_statistics (Connected gap_scenario) scenario_now Map.empty)
   \<and> scenario_start \<le> ((2024, 3, 8), (0, 0, 0, 0))
   \<and> ((2024, 3, 8), (23, 59, 59, 999999)) \<le> scenario_now
   \<and> isoformat_date (2024, 3, 8) = ''2024-03-08''
   \<and> daily_breakdown (projr (get_statistics (Connected gap_scenario) scenario_now Map.empty))
        ''2024-03-08'' = None
   \<and> daily_breakdown (projr (get_statistics (Connected gap_scenario) scenario_now Map.empty))
        ''2024-03-08''
      \<noteq> Some \<lparr>taken = count_on (window_rows gap_scenario scenario_start scenario_now) (2024, 3, 8) ''TAKEN'',
                missed = count_on (window_rows gap_scenario scenario_start scenario_now) (2024, 3, 8) ''MISSED''\<rparr>"
    using n w by (simp add: ok isoformat_march)
  have ok2: "get_statistics (Connected cut_scenario) scenario_now Map.empty
      = Inr (statistics_body cut_scenario 30 scenario_start scenario_now)"
    by (rule get_statistics_ok[OF days_arg_empty minus_days_scenario_now])
  have ev: "select_daily_events cut_scenario scenario_start scenario_now = [((2024, 2, 9), Some ''TAKEN'', 1)]"
    unfolding select_daily_events_def window_cut_scenario
    by (simp add: event_def sql_date_def)
  have e: "daily_breakdown (statistics_body cut_scenario 30 scenario_start scenario_now) ''2024-02-09''
      = Some \<lparr>taken = 1, missed = 0\<rparr>"
    by (simp add: daily_breakdown_of_body ev events_by_day_step_def isoformat_february_9)
  have c: "count_on cut_scenario (2024, 2, 9) ''TAKEN'' = 2"
    by (simp add: count_on_def cut_scenario_def event_def sql_date_def)
  have cut: "\<not> isl (get_statistics (Connected cut_scenario) scenario_now Map.empty)
   \<and> isoformat_date (2024, 2, 9) = ''2024-02-09''
   \<and> count_on cut_scenario (2024, 2, 9) ''TAKEN'' = 2
   \<and> daily_breakdown (projr (get_statistics (Connected cut_scenario) scenario_now Map.empty))
        ''2024-02-09'' = Some \<lparr>taken = 1, missed = 0\<rparr>
   \<and> daily_breakdown (projr (get_statistics (Connected cut_scenario) scenario_now Map.empty))
        ''2024-02-09''
      \<noteq> Some \<lparr>taken = count_on cut_scenario (2024, 2, 9) ''TAKEN'',
                missed = count_on cut_scenario (2024, 2, 9) ''MISSED''\<rparr>"
    using e c by (simp add: ok2 isoformat_february_9)
  from gap cut show ?thesis by blast
qed

lemma valid_adherence_scenario:
  "list_all (\<lambda>r. valid_date (sql_date (timestamp r))) adherence_scenario"
  by (simp add: adherence_scenario_def event_def sql_date_def valid_date_def days_in_month_def
      DAYS_IN_MONTH_def is_leap_def)

lemma counts_adherence_scenario:
  "(2024, 3, 10) \<in> dates_present (window_rows adherence_scenario scenario_start scenario_now)"
  "count_on (window_rows adherence_scenario scenario_start scenario_now) (2024, 3, 10) ''TAKEN'' = 1"
  "count_on (window_rows adherence_scenario scenario_start scenario_now) (2024, 3, 10) ''MISSED'' = 2"
  unfolding window_adherence_scenario
  by (simp_all add: dates_present_def count_on_def adherence_scenario_def event_def sql_date_def)

theorem daily_breakdown_of_present_dates_witness:
  "days_arg Map.empty = Some 30 \<and> minus_days scenario_now 30 = Some scenario_start
   \<and> list_all (\<lambda>r. valid_date (sql_date (timestamp r))) adherence_scenario
   \<and> (\<exists>resp. get_statistics (Connected adherence_scenario) scenario_now Map.empty = Inr resp
        \<and> daily_breakdown resp ''2024-03-10'' = Some \<lparr>taken = 1, missed = 2\<rparr>)"
proof -
  have v: "\<forall>r\<in>set adherence_scenario. valid_date (sql_date (timestamp r))"
    using valid_adherence_scenario by (simp only: list_all_iff)
  from daily_breakdown_of_present_dates[OF days_arg_empty minus_days_scenario_now v]
  obtain resp where r: "get_statistics (Connected adherence_scenario) scenario_now Map.empty = Inr resp"
    and p: "\<forall>d\<in>dates_present (window_rows adherence_scenario scenario_start scenario_now).
                 daily_breakdown resp (isoformat_date d) =
                   Some \<lparr>taken = count_on (window_rows adherence_scenario scenario_start scenario_now) d ''TAKEN'',
                         missed = count_on (window_rows adherence_scenario scenario_start scenario_now) d ''MISSED''\<rparr>"
    by blast
  from p counts_adherence_scenario(1)
  have "daily_breakdown resp (isoformat_date (2024, 3, 10)) =
      Some \<lparr>taken = count_on (window_rows adherence_scenario scenario_start scenario_now) (2024, 3, 10) ''TAKEN'',
            missed = count_on (window_rows adherence_scenario scenario_start scenario_now) (2024, 3, 10) ''MISSED''\<rparr>"
    by (rule bspec)
  then have "daily_breakdown resp ''2024-03-10'' = Some \<lparr>taken = 1, missed = 2\<rparr>"
    by (simp only: isoformat_march counts_adherence_scenario)
  with r show ?thesis
    using days_arg_empty minus_days_scenario_now valid_adherence_scenario by blast
qed

section \<open>The adherence percentage\<close>

































end
